theory Spec2Isabelle
  imports Complex_Main "HOL-Library.Sublist" "HOL-Library.AList" "HOL-Library.Char_ord"
    "HOL-Library.List_Lexorder"
begin

section \<open>Calendar dates\<close>

text \<open>
  A \<^verbatim>\<open>datetime.date\<close> is identified with its proleptic Gregorian ordinal
  (\<^verbatim>\<open>date.toordinal()\<close>, 0001-01-01 is day 1): comparison of dates is comparison of
  ordinals, \<^verbatim>\<open>(a - b).days\<close> is their difference and \<^verbatim>\<open>d + timedelta(days=1)\<close> is
  the successor. The constructor and the formatting functions follow the helper
  functions of CPython's \<^verbatim>\<open>datetime\<close> module. The model covers dates before
  \<^verbatim>\<open>date.max\<close>, where adding one day cannot overflow.
\<close>

type_synonym date = int

definition is_leap :: "int \<Rightarrow> bool" where
  "is_leap year = (year mod 4 = 0 \<and> (year mod 100 \<noteq> 0 \<or> year mod 400 = 0))"

definition days_before_year :: "int \<Rightarrow> int" where
  "days_before_year year = (let y = year - 1 in y * 365 + y div 4 - y div 100 + y div 400)"

definition DAYS_IN_MONTH :: "int list" where
  "DAYS_IN_MONTH = [-1, 31, 28, 31, 30, 31, 30, 31, 31, 30, 31, 30, 31]"

definition DAYS_BEFORE_MONTH :: "int list" where
  "DAYS_BEFORE_MONTH = [-1, 0, 31, 59, 90, 120, 151, 181, 212, 243, 273, 304, 334]"

definition days_before_month :: "int \<Rightarrow> int \<Rightarrow> int" where
  "days_before_month year month =
     DAYS_BEFORE_MONTH ! nat month + (if month > 2 \<and> is_leap year then 1 else 0)"

text \<open>\<^verbatim>\<open>date(year, month, day)\<close> for a valid calendar date (every literal of the
  catalog below is one).\<close>

definition ymd2ord :: "int \<Rightarrow> int \<Rightarrow> int \<Rightarrow> date" where
  "ymd2ord year month day = days_before_year year + days_before_month year month + day"

definition ord2ymd :: "date \<Rightarrow> int \<times> int \<times> int" where
  "ord2ymd n0 =
    (let n = n0 - 1;
         n400 = n div 146097; n = n mod 146097;
         year = n400 * 400 + 1;
         n100 = n div 36524; n = n mod 36524;
         n4 = n div 1461; n = n mod 1461;
         n1 = n div 365; n = n mod 365;
         year = year + n100 * 100 + n4 * 4 + n1
     in if n1 = 4 \<or> n100 = 4 then (year - 1, 12, 31)
        else
          let leapyear = (n1 = 3 \<and> (n4 \<noteq> 24 \<or> n100 = 3));
              month = (n + 50) div 32;
              preceding = DAYS_BEFORE_MONTH ! nat month
                          + (if month > 2 \<and> leapyear then 1 else 0)
          in if preceding > n
             then let month = month - 1;
                      preceding = preceding - (DAYS_IN_MONTH ! nat month
                                    + (if month = 2 \<and> leapyear then 1 else 0))
                  in (year, month, n - preceding + 1)
             else (year, month, n - preceding + 1))"

section \<open>Decimal rendering of integers\<close>

definition digit_char :: "nat \<Rightarrow> char" where
  "digit_char n = ''0123456789'' ! n"

fun str_nat :: "nat \<Rightarrow> string" where
  "str_nat n = (if n < 10 then [digit_char n] else str_nat (n div 10) @ [digit_char (n mod 10)])"

declare str_nat.simps [simp del]

text \<open>Python's \<^verbatim>\<open>str(n)\<close> for an \<^verbatim>\<open>int\<close>.\<close>

definition str_int :: "int \<Rightarrow> string" where
  "str_int i = (if i < 0 then CHR ''-'' # str_nat (nat (- i)) else str_nat (nat i))"

text \<open>The format specification \<^verbatim>\<open>02d\<close> (and \<^verbatim>\<open>%m\<close>): at least two digits,
  padded with zeros.\<close>

definition pad2 :: "int \<Rightarrow> string" where
  "pad2 i = (if 0 \<le> i \<and> i < 10 then CHR ''0'' # str_int i else str_int i)"

text \<open>\<^verbatim>\<open>day.strftime("%Y-%m")\<close>: the year as the C library prints it (four digits
  from year 1000 on), a dash, the month on two digits.\<close>

definition month_key :: "date \<Rightarrow> string" where
  "month_key day = (case ord2ymd day of (y, m, d) \<Rightarrow> str_int y @ ''-'' @ pad2 m)"

section \<open>The event catalog (llm_events.py)\<close>

definition ORG_COLORS :: "(string \<times> string) list" where
  "ORG_COLORS =
    [(''OpenAI'', ''#10a37f''),
     (''Anthropic'', ''#c97d4e''),
     (''Google'', ''#4285f4''),
     (''Meta'', ''#1877f2''),
     (''Mistral'', ''#7c3aed''),
     (''Microsoft'', ''#00a4ef''),
     (''Cohere'', ''#d946ef''),
     (''xAI'', ''#000000''),
     (''DeepSeek'', ''#e11d48''),
     (''Other'', ''#6b7280'')]"

definition LLM_RELEASES :: "(string \<times> string \<times> date) list" where
  "LLM_RELEASES =
    [(''GPT-3'', ''OpenAI'', ymd2ord 2020 6 11),
     (''GitHub Copilot'', ''Microsoft'', ymd2ord 2021 6 29),
     (''CodeX'', ''OpenAI'', ymd2ord 2021 8 10),
     (''ChatGPT'', ''OpenAI'', ymd2ord 2022 11 30),
     (''Llama 1'', ''Meta'', ymd2ord 2023 2 24),
     (''GPT-4'', ''OpenAI'', ymd2ord 2023 3 14),
     (''Claude 1'', ''Anthropic'', ymd2ord 2023 3 14),
     (''Bard'', ''Google'', ymd2ord 2023 3 21),
     (''Falcon 40B'', ''Other'', ymd2ord 2023 5 23),
     (''PaLM 2'', ''Google'', ymd2ord 2023 5 10),
     (''Claude 2'', ''Anthropic'', ymd2ord 2023 7 11),
     (''Llama 2'', ''Meta'', ymd2ord 2023 7 18),
     (''Mistral 7B'', ''Mistral'', ymd2ord 2023 9 27),
     (''GPT-4 Turbo'', ''OpenAI'', ymd2ord 2023 11 6),
     (''Gemini 1.0'', ''Google'', ymd2ord 2023 12 6),
     (''Mixtral 8x7B'', ''Mistral'', ymd2ord 2023 12 11),
     (''Gemini 1.5 Pro'', ''Google'', ymd2ord 2024 2 15),
     (''Claude 3 Opus'', ''Anthropic'', ymd2ord 2024 3 4),
     (''DBRX'', ''Other'', ymd2ord 2024 3 27),
     (''Llama 3 8/70B'', ''Meta'', ymd2ord 2024 4 18),
     (''GPT-4o'', ''OpenAI'', ymd2ord 2024 5 13),
     (''Claude 3.5 Sonnet'', ''Anthropic'', ymd2ord 2024 6 20),
     (''Llama 3.1 405B'', ''Meta'', ymd2ord 2024 7 23),
     (''Mistral Large 2'', ''Mistral'', ymd2ord 2024 7 24),
     (''GPT-4o mini'', ''OpenAI'', ymd2ord 2024 7 18),
     (''Grok-2'', ''xAI'', ymd2ord 2024 8 13),
     (''o1-preview'', ''OpenAI'', ymd2ord 2024 9 12),
     (''Claude 3.5 Haiku'', ''Anthropic'', ymd2ord 2024 10 22),
     (''Llama 3.2'', ''Meta'', ymd2ord 2024 9 25),
     (''Gemini 2.0 Flash'', ''Google'', ymd2ord 2024 12 11),
     (''DeepSeek V3'', ''DeepSeek'', ymd2ord 2024 12 26),
     (''DeepSeek R1'', ''DeepSeek'', ymd2ord 2025 1 20),
     (''o3-mini'', ''OpenAI'', ymd2ord 2025 1 31),
     (''Claude 3.7 Sonnet'', ''Anthropic'', ymd2ord 2025 2 24),
     (''Gemini 2.0 Pro'', ''Google'', ymd2ord 2025 2 5),
     (''Llama 4'', ''Meta'', ymd2ord 2025 4 5),
     (''GPT-4.1'', ''OpenAI'', ymd2ord 2025 4 14),
     (''Claude 4 Sonnet'', ''Anthropic'', ymd2ord 2025 5 22),
     (''Gemini 2.5 Pro'', ''Google'', ymd2ord 2025 3 25)]"

text \<open>The dict built for each release, with the keys of the source as fields.\<close>

record event =
  model :: string
  org :: string
  date :: date
  color :: string

text \<open>\<^verbatim>\<open>ORG_COLORS.get(org, ORG_COLORS["Other"])\<close>; the key \<^verbatim>\<open>"Other"\<close> is in the
  table, so the default never raises.\<close>

definition org_color :: "string \<Rightarrow> string" where
  "org_color g =
     (case map_of ORG_COLORS g of Some c \<Rightarrow> c | None \<Rightarrow> the (map_of ORG_COLORS ''Other''))"

definition get_events_as_dicts :: "event list" where
  "get_events_as_dicts =
     map (\<lambda>(name, g, release_date).
            \<lparr>model = name, org = g, date = release_date, color = org_color g\<rparr>) LLM_RELEASES"

definition get_events_in_range :: "date \<Rightarrow> date \<Rightarrow> event list" where
  "get_events_in_range start end =
     filter (\<lambda>e. start \<le> date e \<and> date e \<le> end) get_events_as_dicts"

section \<open>Label stagger (visualize.py)\<close>

definition ANNOTATION_LEVELS :: nat where
  "ANNOTATION_LEVELS = 6"

definition MIN_DAY_GAP :: int where
  "MIN_DAY_GAP = 20"

text \<open>The inner loop over \<^verbatim>\<open>range(ANNOTATION_LEVELS)\<close>: the first level whose last
  date is unset or far enough, \<open>None\<close> when the loop ends without a \<^verbatim>\<open>break\<close>.\<close>

fun scan_levels :: "(nat \<rightharpoonup> date) \<Rightarrow> date \<Rightarrow> int \<Rightarrow> nat list \<Rightarrow> nat option" where
  "scan_levels level_last ev_date min_day_gap [] = None"
| "scan_levels level_last ev_date min_day_gap (lvl # rest) =
     (case level_last lvl of
        None \<Rightarrow> Some lvl
      | Some last_date \<Rightarrow>
          if ev_date - last_date \<ge> min_day_gap then Some lvl
          else scan_levels level_last ev_date min_day_gap rest)"

definition pick_level :: "(nat \<rightharpoonup> date) \<Rightarrow> date \<Rightarrow> int \<Rightarrow> nat" where
  "pick_level level_last ev_date min_day_gap =
     (case scan_levels level_last ev_date min_day_gap [0..<ANNOTATION_LEVELS] of
        None \<Rightarrow> 0
      | Some lvl \<Rightarrow> lvl)"

text \<open>The outer loop, with the dict \<^verbatim>\<open>level_last\<close> passed along; the result is the
  list \<^verbatim>\<open>levels\<close> in the order of the appends.\<close>

fun assign_loop :: "(nat \<rightharpoonup> date) \<Rightarrow> int \<Rightarrow> event list \<Rightarrow> nat list" where
  "assign_loop level_last min_day_gap [] = []"
| "assign_loop level_last min_day_gap (ev # evs) =
     (let assigned = pick_level level_last (date ev) min_day_gap
      in assigned # assign_loop (level_last(assigned \<mapsto> date ev)) min_day_gap evs)"

definition assign_levels :: "event list \<Rightarrow> int \<Rightarrow> nat list" where
  "assign_levels events min_day_gap = assign_loop Map.empty min_day_gap events"

text \<open>
  The notions the layout rule is stated with. A lane is free for an event when its
  last-placed date is unset or at least the gap before the event's date;
  \<open>last_placed ds ls j l\<close> is the date of the latest event before position \<open>j\<close> that
  was given lane \<open>l\<close>, read off the dates \<open>ds\<close> and the result \<open>ls\<close>.
\<close>

definition lane_free :: "date option \<Rightarrow> date \<Rightarrow> int \<Rightarrow> bool" where
  "lane_free lp ev_date min_day_gap =
     (case lp of None \<Rightarrow> True | Some last_date \<Rightarrow> ev_date - last_date \<ge> min_day_gap)"

definition last_placed :: "date list \<Rightarrow> nat list \<Rightarrow> nat \<Rightarrow> nat \<Rightarrow> date option" where
  "last_placed ds ls j l =
     (case filter (\<lambda>k. ls ! k = l) (rev [0..<j]) of [] \<Rightarrow> None | k # _ \<Rightarrow> Some (ds ! k))"

text \<open>The dict \<^verbatim>\<open>level_last\<close> after the outer loop has run over a list of events.\<close>

fun lane_state :: "(nat \<rightharpoonup> date) \<Rightarrow> int \<Rightarrow> event list \<Rightarrow> (nat \<rightharpoonup> date)" where
  "lane_state level_last g [] = level_last"
| "lane_state level_last g (ev # evs) =
     lane_state (level_last(pick_level level_last (date ev) g \<mapsto> date ev)) g evs"

definition lane_free_at :: "event list \<Rightarrow> int \<Rightarrow> nat \<Rightarrow> nat \<Rightarrow> bool" where
  "lane_free_at evs g j l =
     lane_free (last_placed (map date evs) (assign_levels evs g) j l) (date (evs ! j)) g"


section \<open>Dicts of monthly totals\<close>

text \<open>
  A dict from month keys to counts is an association list in insertion order:
  \<^verbatim>\<open>d[k] = v\<close> is \<open>AList.update k v d\<close> (the value replaced in place, or the
  pair appended), \<^verbatim>\<open>d.get(k, 0)\<close> is \<open>dict_get d k 0\<close>.
\<close>

type_synonym month_totals = "(string \<times> int) list"

definition dict_get :: "('k \<times> 'v) list \<Rightarrow> 'k \<Rightarrow> 'v \<Rightarrow> 'v" where
  "dict_get d k dflt = (case map_of d k of None \<Rightarrow> dflt | Some v \<Rightarrow> v)"

section \<open>The cache file (load_existing_csv, save_csv)\<close>

text \<open>
  Both fetch modules hold the same \<^verbatim>\<open>load_existing_csv\<close> and \<^verbatim>\<open>save_csv\<close>. The program
  meets the file through the \<^verbatim>\<open>csv\<close> module only, which hands it rows: a file is the
  list of its rows, a row the list of its fields (\<open>None\<close> for a file that does not
  exist). For fields without comma, quote or line break, as the header and the rows
  of well-formed months are, \<^verbatim>\<open>csv.writer\<close> joins the fields with commas and ends
  the row with CR LF; \<open>write_rows\<close> gives these bytes.
\<close>

datatype csv_error = KeyError | TypeError | ValueError

text \<open>
  \<^verbatim>\<open>int(s)\<close> on an ASCII string: surrounding white space is dropped, a sign may lead,
  and the digits may be grouped by single underscores. \<open>None\<close> is the \<^verbatim>\<open>ValueError\<close>.
  (On other strings Python also takes Unicode white space and digits; \<^verbatim>\<open>save_csv\<close>
  writes none.)
\<close>

definition is_digit :: "char \<Rightarrow> bool" where
  "is_digit c = (c \<in> set ''0123456789'')"

definition digit_val :: "char \<Rightarrow> nat" where
  "digit_val c = of_char c - 48"

definition is_space :: "char \<Rightarrow> bool" where
  "is_space c = (c \<in> {CHR '' '', CHR 0x09, CHR 0x0A, CHR 0x0B, CHR 0x0C, CHR 0x0D})"

fun digits_val :: "string \<Rightarrow> nat \<Rightarrow> nat option" where
  "digits_val [] acc = Some acc"
| "digits_val (c # cs) acc =
     (if is_digit c then digits_val cs (acc * 10 + digit_val c)
      else if c = CHR ''_'' \<and> cs \<noteq> [] \<and> is_digit (hd cs) then digits_val cs acc
      else None)"

definition parse_nat :: "string \<Rightarrow> nat option" where
  "parse_nat s = (case s of [] \<Rightarrow> None | c # cs \<Rightarrow> if is_digit c then digits_val s 0 else None)"

definition python_int :: "string \<Rightarrow> int option" where
  "python_int s =
     (case rev (dropWhile is_space (rev (dropWhile is_space s))) of
        [] \<Rightarrow> None
      | c # cs \<Rightarrow>
          if c = CHR ''-'' then map_option (\<lambda>n. - int n) (parse_nat cs)
          else if c = CHR ''+'' then map_option int (parse_nat cs)
          else map_option int (parse_nat (c # cs)))"

type_synonym csv_rows = "string list list"

text \<open>\<^verbatim>\<open>writer.writerow\<close> renders an \<^verbatim>\<open>int\<close> with \<^verbatim>\<open>str\<close>; \<^verbatim>\<open>totals[month]\<close> is
  defined since \<^verbatim>\<open>month\<close> is taken from the keys.\<close>

definition save_csv :: "month_totals \<Rightarrow> csv_rows" where
  "save_csv totals =
     [''month'', ''commits'']
       # map (\<lambda>month. [month, str_int (the (map_of totals month))]) (sort (map fst totals))"

text \<open>
  A row of \<^verbatim>\<open>csv.DictReader\<close> as a dict: the field names zipped with the fields, a
  field name without field mapped to \<open>None\<close> (the \<^verbatim>\<open>restval\<close>), a later duplicate of a
  field name winning. The outer \<open>None\<close> is the \<^verbatim>\<open>KeyError\<close> of \<^verbatim>\<open>row[key]\<close>.
\<close>

definition row_get :: "string list \<Rightarrow> string list \<Rightarrow> string \<Rightarrow> string option option" where
  "row_get fieldnames row key =
     map_of (rev (zip fieldnames
                    (map Some row @ replicate (length fieldnames - length row) None))) key"

text \<open>
  The loop of \<^verbatim>\<open>load_existing_csv\<close>. The reader skips empty rows. The right-hand
  side \<^verbatim>\<open>int(row["commits"])\<close> is evaluated before the key \<^verbatim>\<open>row["month"]\<close>. A row too
  short to have a month gives the key \<^verbatim>\<open>None\<close> in the source, which a dict with
  string keys cannot hold: the model ends with \<open>TypeError\<close> there, as the source does
  at the next \<^verbatim>\<open>sorted(totals)\<close>.
\<close>

fun load_rows :: "string list \<Rightarrow> csv_rows \<Rightarrow> month_totals \<Rightarrow> csv_error + month_totals" where
  "load_rows fieldnames [] totals = Inr totals"
| "load_rows fieldnames (row # rows) totals =
     (if row = [] then load_rows fieldnames rows totals
      else case row_get fieldnames row ''commits'' of
             None \<Rightarrow> Inl KeyError
           | Some None \<Rightarrow> Inl TypeError
           | Some (Some c) \<Rightarrow>
               (case python_int c of
                  None \<Rightarrow> Inl ValueError
                | Some n \<Rightarrow>
                    (case row_get fieldnames row ''month'' of
                       None \<Rightarrow> Inl KeyError
                     | Some None \<Rightarrow> Inl TypeError
                     | Some (Some month) \<Rightarrow>
                         load_rows fieldnames rows (AList.update month n totals))))"

definition load_existing_csv :: "csv_rows option \<Rightarrow> csv_error + month_totals" where
  "load_existing_csv file =
     (case file of
        None \<Rightarrow> Inr []
      | Some [] \<Rightarrow> Inr []
      | Some (fieldnames # rows) \<Rightarrow> load_rows fieldnames rows [])"

text \<open>\<^verbatim>\<open>_validate_month\<close> of main.py: the full match of
  \<^verbatim>\<open>\d{4}-(0[1-9]|1[0-2])\<close>.\<close>

definition validate_month :: "string \<Rightarrow> bool" where
  "validate_month v =
     (case v of
        [y1, y2, y3, y4, d, m1, m2] \<Rightarrow>
          is_digit y1 \<and> is_digit y2 \<and> is_digit y3 \<and> is_digit y4 \<and> d = CHR ''-''
          \<and> ((m1 = CHR ''0'' \<and> m2 \<in> set ''123456789'') \<or> (m1 = CHR ''1'' \<and> m2 \<in> set ''012''))
      | _ \<Rightarrow> False)"

text \<open>\<^verbatim>\<open>sep.join(parts)\<close>.\<close>

fun join :: "string \<Rightarrow> string list \<Rightarrow> string" where
  "join sep [] = []"
| "join sep [x] = x"
| "join sep (x # y # ys) = x @ sep @ join sep (y # ys)"

text \<open>The bytes of a file whose fields need no quoting.\<close>

definition write_rows :: "csv_rows \<Rightarrow> string" where
  "write_rows rows = concat (map (\<lambda>row. join '','' row @ [CHR 0x0D, CHR 0x0A]) rows)"

text \<open>The dict that loading a saved dict gives: the keys in ascending order.\<close>

definition reloaded :: "month_totals \<Rightarrow> month_totals" where
  "reloaded m = map (\<lambda>k. (k, the (map_of m k))) (sort (map fst m))"

section \<open>Outlier smoothing and loading for the chart (visualize.py)\<close>

text \<open>
  A data frame is the list of its rows, a row the pair of its \<^verbatim>\<open>month\<close> and
  \<^verbatim>\<open>commits\<close>; the column \<^verbatim>\<open>date\<close> is a function of \<^verbatim>\<open>month\<close>. The float64 values
  of pandas are modelled by exact rationals and \<^verbatim>\<open>NaN\<close> by \<open>None\<close>: the model is
  for counts below \<open>2^53\<close> in absolute value, which float64 holds exactly, and the
  rounding errors of the floating-point operations and the bounds of int64 are not
  modelled. The behaviour of the pandas calls is taken from the pandas documentation.
\<close>

datatype frame_error = FrameKeyError | ParseError | IntCastingNaNError

text \<open>\<^verbatim>\<open>Series.median()\<close> of a series that is not empty.\<close>

definition median :: "rat list \<Rightarrow> rat" where
  "median xs =
     (let s = sort xs; n = length s
      in if odd n then s ! (n div 2) else (s ! (n div 2 - 1) + s ! (n div 2)) / 2)"

text \<open>
  The first four statements of \<^verbatim>\<open>cap_outliers\<close>: the mask of the points whose
  modified z-score exceeds the threshold. On an empty series the median is \<^verbatim>\<open>NaN\<close>
  and the mask is empty.
\<close>

definition outlier_mask :: "int list \<Rightarrow> rat \<Rightarrow> bool list" where
  "outlier_mask commits z_thresh =
     (if commits = [] then []
      else
      let xs = map rat_of_int commits;
          med = median xs;
          mad = median (map (\<lambda>x. \<bar>x - med\<bar>) xs);
          modified_z = map (\<lambda>x. (6745 / 10000) * (x - med) / (mad + 1)) xs
      in map (\<lambda>z. \<bar>z\<bar> > z_thresh) modified_z)"

text \<open>
  \<^verbatim>\<open>Series.interpolate(method="linear")\<close>: the index is ignored and the values are
  taken as equally spaced; the filling direction is forward. A missing value between
  two valid ones lies on the line through them; missing values after the last valid
  one take its value; missing values before the first valid one stay missing.
\<close>

definition prev_valid :: "rat option list \<Rightarrow> nat \<Rightarrow> nat option" where
  "prev_valid ys i = find (\<lambda>j. ys ! j \<noteq> None) (rev [0..<i])"

definition next_valid :: "rat option list \<Rightarrow> nat \<Rightarrow> nat option" where
  "next_valid ys i = find (\<lambda>j. ys ! j \<noteq> None) [Suc i..<length ys]"

definition interpolate :: "rat option list \<Rightarrow> rat option list" where
  "interpolate ys =
     map (\<lambda>i. case ys ! i of
                 Some y \<Rightarrow> Some y
               | None \<Rightarrow>
                   (case prev_valid ys i of
                      None \<Rightarrow> None
                    | Some a \<Rightarrow>
                        (case next_valid ys i of
                           None \<Rightarrow> ys ! a
                         | Some b \<Rightarrow>
                             Some (the (ys ! a)
                                   + (the (ys ! b) - the (ys ! a))
                                       * rat_of_nat (i - a) / rat_of_nat (b - a)))))
       [0..<length ys]"

text \<open>\<^verbatim>\<open>Series.round()\<close>: to the nearest integer, a half to the even one.\<close>

definition round_half_even :: "rat \<Rightarrow> int" where
  "round_half_even x =
     (let f = \<lfloor>x\<rfloor>; d = x - rat_of_int f
      in if d < 1 / 2 then f else if d > 1 / 2 then f + 1 else if even f then f else f + 1)"

text \<open>
  \<^verbatim>\<open>cap_outliers\<close>. \<^verbatim>\<open>astype("int64")\<close> raises on a value that is still \<^verbatim>\<open>NaN\<close>. The
  line printed for the capped months is not part of the result.
\<close>

definition cap_outliers :: "month_totals \<Rightarrow> rat \<Rightarrow> frame_error + month_totals" where
  "cap_outliers df z_thresh =
     (let mask = outlier_mask (map snd df) z_thresh
      in if \<not> list_ex id mask then Inr df
         else
           let masked = map (\<lambda>((month, c), flagged). if flagged then None else Some (rat_of_int c))
                          (zip df mask);
               filled = interpolate masked
           in if list_ex (\<lambda>v. v = None) filled then Inl IntCastingNaNError
              else Inr (map (\<lambda>((month, c), v). (month, round_half_even (the v)))
                          (zip df filled)))"

text \<open>
  A parser of month strings for the worked examples: on \<^verbatim>\<open>YYYY-MM\<close> and \<^verbatim>\<open>YYYY-M\<close> it
  gives the first day of the month, as \<^verbatim>\<open>pd.to_datetime(..., format="%Y-%m")\<close> does.
  What pandas accepts beyond these forms is not fixed here: \<open>load_commits\<close> below
  takes the parser as a parameter, and its properties hold for every parser.
\<close>

definition to_datetime :: "string \<Rightarrow> date option" where
  "to_datetime s =
     (let year = (\<lambda>y1 y2 y3 y4.
            int (((digit_val y1 * 10 + digit_val y2) * 10 + digit_val y3) * 10 + digit_val y4))
      in case s of
           [y1, y2, y3, y4, d, m1, m2] \<Rightarrow>
             if list_all is_digit [y1, y2, y3, y4, m1, m2] \<and> d = CHR ''-''
                \<and> 1 \<le> digit_val m1 * 10 + digit_val m2
                \<and> digit_val m1 * 10 + digit_val m2 \<le> 12
             then Some (ymd2ord (year y1 y2 y3 y4) (int (digit_val m1 * 10 + digit_val m2)) 1)
             else None
         | [y1, y2, y3, y4, d, m1] \<Rightarrow>
             if list_all is_digit [y1, y2, y3, y4, m1] \<and> d = CHR ''-'' \<and> 1 \<le> digit_val m1
             then Some (ymd2ord (year y1 y2 y3 y4) (int (digit_val m1)) 1)
             else None
         | _ \<Rightarrow> None)"

text \<open>\<^verbatim>\<open>if start_month:\<close> holds for a string that is neither \<^verbatim>\<open>None\<close> nor empty.\<close>

definition truthy :: "string option \<Rightarrow> bool" where
  "truthy s = (case s of None \<Rightarrow> False | Some v \<Rightarrow> v \<noteq> [])"

text \<open>The two restrictions of \<^verbatim>\<open>load_commits\<close>, which compare the month strings.\<close>

definition restrict_months :: "string option \<Rightarrow> string option \<Rightarrow> month_totals \<Rightarrow> month_totals" where
  "restrict_months start_month end_month df =
     (let df = (if truthy start_month then filter (\<lambda>(month, c). month \<ge> the start_month) df
                else df)
      in if truthy end_month then filter (\<lambda>(month, c). month \<le> the end_month) df else df)"

text \<open>
  \<^verbatim>\<open>load_commits\<close> on the list \<^verbatim>\<open>rows\<close> read from the file, with the parser
  \<^verbatim>\<open>pd.to_datetime\<close> as the parameter \<open>to_dt\<close> (\<open>None\<close> where it raises). An empty list
  gives a frame without columns, on which \<^verbatim>\<open>df["month"]\<close> raises. The sort by date is
  written as a stable sort; pandas sorts with quicksort, which gives the same frame
  when the dates of the rows are distinct, as they are in a cache file.
\<close>

definition load_commits ::
    "(string \<Rightarrow> date option) \<Rightarrow> month_totals \<Rightarrow> string option \<Rightarrow> string option
       \<Rightarrow> frame_error + month_totals" where
  "load_commits to_dt rows start_month end_month =
     (if rows = [] then Inl FrameKeyError
      else if list_ex (\<lambda>(month, c). to_dt month = None) rows then Inl ParseError
      else
        let df = sort_key (\<lambda>(month, c). the (to_dt month)) rows
        in cap_outliers (restrict_months start_month end_month df) 3)"

text \<open>
  The order the specification words: the smoothing runs over the full sorted series
  and the restriction to the requested months comes after it.
\<close>

definition load_commits_cap_first ::
    "(string \<Rightarrow> date option) \<Rightarrow> month_totals \<Rightarrow> string option \<Rightarrow> string option
       \<Rightarrow> frame_error + month_totals" where
  "load_commits_cap_first to_dt rows start_month end_month =
     (if rows = [] then Inl FrameKeyError
      else if list_ex (\<lambda>(month, c). to_dt month = None) rows then Inl ParseError
      else
        let df = sort_key (\<lambda>(month, c). the (to_dt month)) rows
        in map_sum id (restrict_months start_month end_month) (cap_outliers df 3))"

text \<open>A cache for the worked examples, with a spike in 2023-08.\<close>

definition sample_cache :: month_totals where
  "sample_cache =
     [(''2023-01'', 10), (''2023-02'', 20), (''2023-03'', 30), (''2023-04'', 40),
      (''2023-05'', 50), (''2023-06'', 60), (''2023-07'', 70), (''2023-08'', 5000),
      (''2023-09'', 90)]"

section \<open>The incremental fetch (fetch_github_data.py)\<close>

text \<open>
  One line of a decompressed hourly file, by what the scan does with it: a blank
  line, a line that \<^verbatim>\<open>json.loads\<close> rejects, a JSON value on which \<^verbatim>\<open>.get\<close> fails
  (the line or its payload is not an object: an \<^verbatim>\<open>AttributeError\<close>), or an event
  with its \<^verbatim>\<open>type\<close> (\<open>None\<close> when absent) and its payload's \<^verbatim>\<open>size\<close> when that is
  an \<^verbatim>\<open>int\<close> (\<open>None\<close> when absent or of another type).
\<close>

datatype line = Blank | Malformed | NotObject | Event "string option" "int option"

text \<open>
  What one HTTP attempt yields: status 404, an exception of the classes the retry
  loop catches (\<^verbatim>\<open>requests.RequestException\<close>, \<^verbatim>\<open>OSError\<close>), any other exception,
  or a body that decompresses to lines. The remote side is a function of the day,
  the hour and the attempt number (from 1).
\<close>

datatype response = Status404 | RequestError | OtherError | Body "line list"

datatype exn = RequestException | OtherException

type_synonym remote = "date \<Rightarrow> nat \<Rightarrow> nat \<Rightarrow> response"

definition MAX_RETRIES :: nat where
  "MAX_RETRIES = 5"

definition RETRY_BACKOFF :: "nat list" where
  "RETRY_BACKOFF = [2, 5, 15, 30, 60]"

text \<open>The loop over the lines of one file, with \<^verbatim>\<open>commit_count\<close> passed along.\<close>

fun scan_lines :: "line list \<Rightarrow> int \<Rightarrow> exn + int" where
  "scan_lines [] commit_count = Inr commit_count"
| "scan_lines (Blank # rest) commit_count = scan_lines rest commit_count"
| "scan_lines (Malformed # rest) commit_count = scan_lines rest commit_count"
| "scan_lines (NotObject # rest) commit_count = Inl OtherException"
| "scan_lines (Event ty sz # rest) commit_count =
     (if ty \<noteq> Some ''PushEvent'' then scan_lines rest commit_count
      else case sz of
             Some n \<Rightarrow> if n > 0 then scan_lines rest (commit_count + n)
                       else scan_lines rest commit_count
           | None \<Rightarrow> scan_lines rest commit_count)"

text \<open>The retry loop over \<^verbatim>\<open>enumerate(RETRY_BACKOFF + [None], start=1)\<close>; the
  equation for the empty list is the \<^verbatim>\<open>return 0\<close> after the loop.\<close>

fun attempt_loop :: "(nat \<Rightarrow> response) \<Rightarrow> (nat \<times> nat option) list \<Rightarrow> exn + int" where
  "attempt_loop resp [] = Inr 0"
| "attempt_loop resp ((attempt, backoff) # rest) =
     (case resp attempt of
        Status404 \<Rightarrow> Inr (- 1)
      | Body ls \<Rightarrow> scan_lines ls 0
      | OtherError \<Rightarrow> Inl OtherException
      | RequestError \<Rightarrow>
          if attempt > MAX_RETRIES \<or> backoff = None then Inl RequestException
          else attempt_loop resp rest)"

definition stream_hourly_file :: "remote \<Rightarrow> date \<Rightarrow> nat \<Rightarrow> exn + int" where
  "stream_hourly_file remote day hour =
     attempt_loop (remote day hour) (List.enumerate 1 (map Some RETRY_BACKOFF @ [None]))"

text \<open>
  The two files. The checkpoint file is the set of days whose ISO dates are its
  lines (\<^verbatim>\<open>isoformat\<close> is one-to-one, and an absent file reads as the empty set);
  the cache file is the dict that \<^verbatim>\<open>load_existing_csv\<close> reads from it (an absent
  file reads as the empty dict; a file that \<^verbatim>\<open>load_existing_csv\<close> rejects, on which
  \<^verbatim>\<open>fetch\<close> raises before any request, is outside this model). The effects of a run
  are logged in order. At this level a \<^verbatim>\<open>write_text\<close> and a \<^verbatim>\<open>save_csv\<close> are each one
  entry of the log, and \<open>disk_after\<close> gives the files once the writes of a log have
  run to their end; what an interruption inside a write leaves is modelled further
  down, on the bytes of the files.
\<close>

record disk =
  checkpoint :: "date set"
  cache :: month_totals

datatype io = Get date nat | SaveCheckpoint "date set" | SaveCsv month_totals

fun apply_io :: "io \<Rightarrow> disk \<Rightarrow> disk" where
  "apply_io (Get day hour) dk = dk"
| "apply_io (SaveCheckpoint done_days) dk = dk\<lparr>checkpoint := done_days\<rparr>"
| "apply_io (SaveCsv totals) dk = dk\<lparr>cache := totals\<rparr>"

definition disk_after :: "io list \<Rightarrow> disk \<Rightarrow> disk" where
  "disk_after ios dk = fold apply_io ios dk"

text \<open>\<^verbatim>\<open>iter_date_range\<close>, for an end before \<^verbatim>\<open>date.max\<close>; at \<^verbatim>\<open>date.max\<close> itself the
  source raises \<^verbatim>\<open>OverflowError\<close> when it steps past the last day.\<close>

definition iter_date_range :: "date \<Rightarrow> date \<Rightarrow> date list" where
  "iter_date_range start end = [start..end]"

record fetch_state =
  done_days :: "date set"
  totals :: month_totals
  trace :: "io list"

text \<open>The loop over \<^verbatim>\<open>range(24)\<close> with \<^verbatim>\<open>day_commits\<close> and the log passed along. An
  exception of \<^verbatim>\<open>stream_hourly_file\<close> and the result \<^verbatim>\<open>-1\<close> both \<^verbatim>\<open>continue\<close>.\<close>

fun hours_loop :: "remote \<Rightarrow> date \<Rightarrow> nat list \<Rightarrow> int \<times> io list \<Rightarrow> int \<times> io list" where
  "hours_loop remote day [] acc = acc"
| "hours_loop remote day (hour # rest) (day_commits, ios) =
     (case stream_hourly_file remote day hour of
        Inl e \<Rightarrow> hours_loop remote day rest (day_commits, ios @ [Get day hour])
      | Inr n \<Rightarrow>
          if n = - 1 then hours_loop remote day rest (day_commits, ios @ [Get day hour])
          else hours_loop remote day rest (day_commits + n, ios @ [Get day hour]))"

text \<open>The body of the loop over the pending days.\<close>

definition fetch_day :: "remote \<Rightarrow> fetch_state \<Rightarrow> date \<Rightarrow> fetch_state" where
  "fetch_day remote st day =
     (let key = month_key day;
          (day_commits, ios) = hours_loop remote day [0..<24] (0, trace st);
          totals' = AList.update key (dict_get (totals st) key 0 + day_commits) (totals st);
          done' = insert day (done_days st)
      in \<lparr>done_days = done', totals = totals',
          trace = ios @ [SaveCheckpoint done', SaveCsv totals']\<rparr>)"

definition pending_days :: "date \<Rightarrow> date \<Rightarrow> date set \<Rightarrow> date list" where
  "pending_days start end done = filter (\<lambda>d. d \<notin> done) (iter_date_range start end)"

text \<open>\<^verbatim>\<open>fetch(start, end, force=...)\<close> on a disk: the dict it returns and the log of
  its effects.\<close>

definition fetch :: "remote \<Rightarrow> date \<Rightarrow> date \<Rightarrow> bool \<Rightarrow> disk \<Rightarrow> month_totals \<times> io list" where
  "fetch remote start end force dk =
     (let done = (if force then {} else checkpoint dk);
          loaded = cache dk;
          pending = pending_days start end done
      in if pending = [] then (loaded, [])
         else let st = foldl (fetch_day remote)
                         \<lparr>done_days = done, totals = loaded, trace = []\<rparr> pending
              in (totals st, trace st))"

text \<open>A remote side for the worked examples: hour 0 of every day holds one push
  event of 100 commits, every other hour is not found.\<close>

definition sample_remote :: remote where
  "sample_remote day hour attempt =
     (if hour = 0 \<and> attempt = 1 then Body [Event (Some ''PushEvent'') (Some 100)]
      else Status404)"

text \<open>What one hour adds to \<^verbatim>\<open>day_commits\<close>.\<close>

definition hour_contribution :: "remote \<Rightarrow> date \<Rightarrow> nat \<Rightarrow> int" where
  "hour_contribution remote day hour =
     (case stream_hourly_file remote day hour of
        Inl e \<Rightarrow> 0
      | Inr n \<Rightarrow> if n = - 1 then 0 else n)"

text \<open>The effects of one step of the day loop: what it appends to the log.\<close>

definition day_log :: "remote \<Rightarrow> fetch_state \<Rightarrow> date \<Rightarrow> io list" where
  "day_log remote st day = drop (length (trace st)) (trace (fetch_day remote st day))"

text \<open>
  Atomicity of a day's update as the specification words it: at every point where
  the processing of the day can be interrupted, either the day is in the checkpoint
  file and the cache is the one with the day's contribution, or the day is not in the
  checkpoint file and the cache is the one before the day.
\<close>

definition day_update_atomic :: "remote \<Rightarrow> fetch_state \<Rightarrow> date \<Rightarrow> disk \<Rightarrow> bool" where
  "day_update_atomic remote st day dk =
     list_all (\<lambda>p. let dk' = disk_after p dk
                    in (day \<in> checkpoint dk' \<and> cache dk' = totals (fetch_day remote st day))
                       \<or> (day \<notin> checkpoint dk' \<and> cache dk' = cache dk))
       (prefixes (day_log remote st day))"

text \<open>
  Below the level of whole files. Neither write is atomic: \<^verbatim>\<open>write_text\<close> and
  \<^verbatim>\<open>open("w")\<close> first truncate the file, and the new content reaches it afterwards,
  in pieces. A file on disk is its bytes (an absent file and an empty one read the
  same); a write is the truncation followed by the bytes of the new content one by
  one, so that an interruption can leave any initial part of it. The bytes written
  for a value are a function of the value, which the steps take as a parameter;
  \<open>checkpoint_text\<close> and \<open>csv_text\<close> are the functions of the source:
  \<^verbatim>\<open>"\n".join(sorted(done_days))\<close> over the ISO dates, and the rows of \<^verbatim>\<open>save_csv\<close>.
\<close>

definition pad4 :: "int \<Rightarrow> string" where
  "pad4 i = (if 0 \<le> i \<and> i < 1000 then replicate (4 - length (str_int i)) CHR ''0'' @ str_int i
             else str_int i)"

definition isoformat :: "date \<Rightarrow> string" where
  "isoformat day = (case ord2ymd day of (y, m, d) \<Rightarrow> pad4 y @ ''-'' @ pad2 m @ ''-'' @ pad2 d)"

definition checkpoint_text :: "date set \<Rightarrow> string" where
  "checkpoint_text done = join [CHR 0x0A] (sort (map isoformat (sorted_list_of_set done)))"

definition csv_text :: "month_totals \<Rightarrow> string" where
  "csv_text tot = write_rows (save_csv tot)"

datatype raw_step =
    Request date nat
  | TruncateCheckpoint | AppendCheckpoint char
  | TruncateCsv | AppendCsv char

record raw_disk =
  checkpoint_bytes :: string
  cache_bytes :: string

fun raw_apply :: "raw_step \<Rightarrow> raw_disk \<Rightarrow> raw_disk" where
  "raw_apply (Request day hour) rd = rd"
| "raw_apply TruncateCheckpoint rd = rd\<lparr>checkpoint_bytes := []\<rparr>"
| "raw_apply (AppendCheckpoint c) rd = rd\<lparr>checkpoint_bytes := checkpoint_bytes rd @ [c]\<rparr>"
| "raw_apply TruncateCsv rd = rd\<lparr>cache_bytes := []\<rparr>"
| "raw_apply (AppendCsv c) rd = rd\<lparr>cache_bytes := cache_bytes rd @ [c]\<rparr>"

definition raw_after :: "raw_step list \<Rightarrow> raw_disk \<Rightarrow> raw_disk" where
  "raw_after steps rd = fold raw_apply steps rd"

fun raw_steps :: "(date set \<Rightarrow> string) \<Rightarrow> (month_totals \<Rightarrow> string) \<Rightarrow> io \<Rightarrow> raw_step list" where
  "raw_steps ck_text cache_text (Get day hour) = [Request day hour]"
| "raw_steps ck_text cache_text (SaveCheckpoint done) =
     TruncateCheckpoint # map AppendCheckpoint (ck_text done)"
| "raw_steps ck_text cache_text (SaveCsv tot) = TruncateCsv # map AppendCsv (cache_text tot)"

text \<open>The steps of a log of effects, and the raw disk after a list of steps.\<close>

definition raw_log :: "(date set \<Rightarrow> string) \<Rightarrow> (month_totals \<Rightarrow> string) \<Rightarrow> io list \<Rightarrow> raw_step list" where
  "raw_log ck_text cache_text ios = concat (map (raw_steps ck_text cache_text) ios)"

text \<open>
  The bulk path of main.py. \<^verbatim>\<open>existing.update(new_totals)\<close> stores every pair of
  \<^verbatim>\<open>new_totals\<close> into \<^verbatim>\<open>existing\<close>. The step takes the list \<^verbatim>\<open>all_months\<close> of the
  requested months and the BigQuery fetch as a function of the two month bounds, and
  returns the dict the cache file holds afterwards.
\<close>

definition dict_update :: "('k \<times> 'v) list \<Rightarrow> ('k \<times> 'v) list \<Rightarrow> ('k \<times> 'v) list" where
  "dict_update d other = fold (\<lambda>(k, v). AList.update k v) other d"

definition main_fetch_step ::
    "(string \<Rightarrow> string \<Rightarrow> month_totals) \<Rightarrow> string list \<Rightarrow> month_totals \<Rightarrow> month_totals" where
  "main_fetch_step bigquery_fetch all_months existing =
     (let missing = filter (\<lambda>mo. map_of existing mo = None) all_months
      in if missing = [] then existing
         else let new_totals = bigquery_fetch (hd missing) (last missing)
              in dict_update existing new_totals)"

text \<open>An event with a given date, for the worked examples.\<close>

definition sample_event :: "date \<Rightarrow> event" where
  "sample_event d = \<lparr>model = ''m'', org = ''o'', date = d, color = ''c''\<rparr>"


section \<open>Properties of the label stagger\<close>

lemma scan_levels_find:
  "scan_levels ll d g xs = find (\<lambda>l. lane_free (ll l) d g) xs"
  by (induction xs) (auto simp: lane_free_def split: option.splits)

lemma length_assign_loop: "length (assign_loop ll g evs) = length evs"
  by (induction evs arbitrary: ll) (auto simp: Let_def)

lemma lane_state_snoc:
  "lane_state ll g (evs @ [ev]) =
     (let s = lane_state ll g evs in s(pick_level s (date ev) g \<mapsto> date ev))"
  by (induction evs arbitrary: ll) (auto simp: Let_def)

lemma assign_loop_nth:
  "j < length evs \<Longrightarrow>
     assign_loop ll g evs ! j = pick_level (lane_state ll g (take j evs)) (date (evs ! j)) g"
proof (induction evs arbitrary: ll j)
  case Nil
  then show ?case by simp
next
  case (Cons ev evs)
  show ?case
  proof (cases j)
    case 0
    then show ?thesis by (simp add: Let_def)
  next
    case (Suc k)
    with Cons.prems have k: "k < length evs" by simp
    have "assign_loop (ll(pick_level ll (date ev) g \<mapsto> date ev)) g evs ! k =
            pick_level (lane_state (ll(pick_level ll (date ev) g \<mapsto> date ev)) g (take k evs))
              (date (evs ! k)) g"
      by (rule Cons.IH [OF k])
    then show ?thesis unfolding Suc by (simp add: Let_def)
  qed
qed

lemma last_placed_Suc:
  "last_placed ds ls (Suc j) l = (if ls ! j = l then Some (ds ! j) else last_placed ds ls j l)"
  by (simp add: last_placed_def)

lemma lane_state_last_placed:
  "j \<le> length evs \<Longrightarrow>
     lane_state Map.empty g (take j evs) l =
       last_placed (map date evs) (assign_levels evs g) j l"
proof (induction j)
  case 0
  then show ?case by (simp add: last_placed_def)
next
  case (Suc j)
  then have j: "j < length evs" by simp
  then have tk: "take (Suc j) evs = take j evs @ [evs ! j]"
    by (simp add: take_Suc_conv_app_nth)
  have lv: "assign_levels evs g ! j = pick_level (lane_state Map.empty g (take j evs)) (date (evs ! j)) g"
    using assign_loop_nth [OF j] by (simp add: assign_levels_def)
  from Suc.IH j have ih: "lane_state Map.empty g (take j evs) l =
       last_placed (map date evs) (assign_levels evs g) j l" by simp
  show ?case
    using j by (simp add: tk lane_state_snoc Let_def last_placed_Suc lv [symmetric] ih)
qed

lemma pick_level_cases:
  "(\<exists>l < ANNOTATION_LEVELS. lane_free (ll l) d g) \<Longrightarrow>
     pick_level ll d g < ANNOTATION_LEVELS \<and> lane_free (ll (pick_level ll d g)) d g
     \<and> (\<forall>l < pick_level ll d g. \<not> lane_free (ll l) d g)"
  "\<not> (\<exists>l < ANNOTATION_LEVELS. lane_free (ll l) d g) \<Longrightarrow> pick_level ll d g = 0"
proof -
  let ?P = "\<lambda>l. lane_free (ll l) d g"
  {
    assume "\<exists>l < ANNOTATION_LEVELS. ?P l"
    then obtain l where l: "l < ANNOTATION_LEVELS" "?P l" by blast
    then have "find ?P [0..<ANNOTATION_LEVELS] \<noteq> None"
      by (auto simp: find_None_iff)
    then obtain x where x: "find ?P [0..<ANNOTATION_LEVELS] = Some x" by blast
    then have "x < ANNOTATION_LEVELS \<and> ?P x \<and> (\<forall>l<x. \<not> ?P l)"
      by (auto simp: find_Some_iff)
    with x show "pick_level ll d g < ANNOTATION_LEVELS \<and> lane_free (ll (pick_level ll d g)) d g
     \<and> (\<forall>l < pick_level ll d g. \<not> lane_free (ll l) d g)"
      by (simp add: pick_level_def scan_levels_find)
  }
  {
    assume "\<not> (\<exists>l < ANNOTATION_LEVELS. ?P l)"
    then have "find ?P [0..<ANNOTATION_LEVELS] = None"
      by (auto simp: find_None_iff)
    then show "pick_level ll d g = 0"
      by (simp add: pick_level_def scan_levels_find)
  }
qed

lemma last_placed_ge:
  assumes "sorted ds" "i < j" "j \<le> length ds" "ls ! i = l"
  shows "\<exists>x. last_placed ds ls j l = Some x \<and> ds ! i \<le> x"
  using assms(2,3)
proof (induction j)
  case 0
  then show ?case by simp
next
  case (Suc j)
  show ?case
  proof (cases "i = j")
    case True
    with assms(4) show ?thesis by (simp add: last_placed_Suc)
  next
    case False
    with Suc.prems have ij: "i < j" "j \<le> length ds" by simp_all
    from Suc.IH [OF this] obtain x where x: "last_placed ds ls j l = Some x" "ds ! i \<le> x" by blast
    have "ds ! i \<le> ds ! j" using assms(1) ij Suc.prems by (simp add: sorted_iff_nth_mono)
    with x show ?thesis by (simp add: last_placed_Suc)
  qed
qed


lemma lane_free_at_state:
  "j < length evs \<Longrightarrow>
     lane_free_at evs g j l = lane_free (lane_state Map.empty g (take j evs) l) (date (evs ! j)) g"
  using lane_state_last_placed [of j evs g l] by (simp add: lane_free_at_def)

lemma assign_levels_nth:
  "j < length evs \<Longrightarrow>
     assign_levels evs g ! j = pick_level (lane_state Map.empty g (take j evs)) (date (evs ! j)) g"
  using assign_loop_nth [of j evs Map.empty g] by (simp add: assign_levels_def)

lemma assign_levels_greedy:
  assumes j: "j < length evs"
  shows "if \<exists>l < ANNOTATION_LEVELS. lane_free_at evs g j l
         then assign_levels evs g ! j < ANNOTATION_LEVELS
              \<and> lane_free_at evs g j (assign_levels evs g ! j)
              \<and> (\<forall>l < assign_levels evs g ! j. \<not> lane_free_at evs g j l)
         else assign_levels evs g ! j = 0"
proof (cases "\<exists>l < ANNOTATION_LEVELS. lane_free_at evs g j l")
  case True
  then have "\<exists>l < ANNOTATION_LEVELS.
      lane_free (lane_state Map.empty g (take j evs) l) (date (evs ! j)) g"
    unfolding lane_free_at_state [OF j] .
  from pick_level_cases(1) [OF this]
  have P: "assign_levels evs g ! j < ANNOTATION_LEVELS
              \<and> lane_free_at evs g j (assign_levels evs g ! j)
              \<and> (\<forall>l < assign_levels evs g ! j. \<not> lane_free_at evs g j l)"
    unfolding lane_free_at_state [OF j] assign_levels_nth [OF j] .
  show ?thesis by (subst if_P [OF True]) (rule P)
next
  case False
  then have "\<not> (\<exists>l < ANNOTATION_LEVELS.
      lane_free (lane_state Map.empty g (take j evs) l) (date (evs ! j)) g)"
    unfolding lane_free_at_state [OF j] .
  from pick_level_cases(2) [OF this]
  have Q: "assign_levels evs g ! j = 0"
    unfolding assign_levels_nth [OF j] .
  show ?thesis by (subst if_not_P [OF False]) (rule Q)
qed

lemma assign_levels_close_pair:
  assumes srt: "sorted (map date evs)"
    and ij: "i < j" and j: "j < length evs"
    and close: "date (evs ! j) - date (evs ! i) < g"
    and same: "assign_levels evs g ! i = assign_levels evs g ! j"
  shows "assign_levels evs g ! j = 0 \<and> (\<forall>l < ANNOTATION_LEVELS. \<not> lane_free_at evs g j l)"
proof -
  let ?ls = "assign_levels evs g"
  have "j \<le> length (map date evs)" using j by simp
  from last_placed_ge [OF srt ij this same]
  obtain x where x: "last_placed (map date evs) ?ls j (?ls ! j) = Some x"
    and le: "map date evs ! i \<le> x" by blast
  from le ij j have "date (evs ! i) \<le> x" by simp
  with close x have nf: "\<not> lane_free_at evs g j (?ls ! j)"
    by (simp add: lane_free_at_def lane_free_def)
  have none: "\<not> (\<exists>l < ANNOTATION_LEVELS. lane_free_at evs g j l)"
  proof
    assume ex: "\<exists>l < ANNOTATION_LEVELS. lane_free_at evs g j l"
    from assign_levels_greedy [OF j, of g]
    have "lane_free_at evs g j (?ls ! j)" unfolding if_P [OF ex] by blast
    with nf show False by contradiction
  qed
  from assign_levels_greedy [OF j, of g] have "?ls ! j = 0" unfolding if_not_P [OF none] .
  with none show ?thesis by blast
qed


text \<open>
  C6. For a list of events sorted by date, \<open>assign_levels\<close> gives every event the first
  lane, scanning from lane 0, whose last-placed date is unset or at least the minimum
  gap earlier, and lane 0 when no lane is free. Hence two events less than the gap
  apart are given the same lane only when the later one found no free lane and took
  the fallback to lane 0.
\<close>

theorem assign_levels_first_free_lane:
  assumes "sorted (map date evs)"
  shows "length (assign_levels evs g) = length evs
    \<and> (\<forall>j < length evs.
          if \<exists>l < ANNOTATION_LEVELS. lane_free_at evs g j l
          then assign_levels evs g ! j < ANNOTATION_LEVELS
               \<and> lane_free_at evs g j (assign_levels evs g ! j)
               \<and> (\<forall>l < assign_levels evs g ! j. \<not> lane_free_at evs g j l)
          else assign_levels evs g ! j = 0)
    \<and> (\<forall>i j. i < j \<and> j < length evs \<and> date (evs ! j) - date (evs ! i) < g
               \<and> assign_levels evs g ! i = assign_levels evs g ! j \<longrightarrow>
          assign_levels evs g ! j = 0
          \<and> (\<forall>l < ANNOTATION_LEVELS. \<not> lane_free_at evs g j l))"
proof -
  have len: "length (assign_levels evs g) = length evs"
    by (simp add: assign_levels_def length_assign_loop)
  have greedy: "\<forall>j < length evs.
          if \<exists>l < ANNOTATION_LEVELS. lane_free_at evs g j l
          then assign_levels evs g ! j < ANNOTATION_LEVELS
               \<and> lane_free_at evs g j (assign_levels evs g ! j)
               \<and> (\<forall>l < assign_levels evs g ! j. \<not> lane_free_at evs g j l)
          else assign_levels evs g ! j = 0"
    using assign_levels_greedy by blast
  have pair: "\<forall>i j. i < j \<and> j < length evs \<and> date (evs ! j) - date (evs ! i) < g
               \<and> assign_levels evs g ! i = assign_levels evs g ! j \<longrightarrow>
          assign_levels evs g ! j = 0
          \<and> (\<forall>l < ANNOTATION_LEVELS. \<not> lane_free_at evs g j l)"
    using assign_levels_close_pair [OF assms] by blast
  from len greedy pair show ?thesis by (intro conjI)
qed

theorem assign_levels_first_free_lane_witness:
  "sorted (map date (map sample_event [0, 5, 10, 15, 21, 22, 23, 24]))
   \<and> assign_levels (map sample_event [0, 5, 10, 15, 21, 22, 23, 24]) MIN_DAY_GAP
       = [0, 1, 2, 3, 0, 4, 5, 0]
   \<and> date (map sample_event [0, 5, 10, 15, 21, 22, 23, 24] ! 7)
       - date (map sample_event [0, 5, 10, 15, 21, 22, 23, 24] ! 4) < MIN_DAY_GAP
   \<and> \<not> (\<exists>l < ANNOTATION_LEVELS.
           lane_free_at (map sample_event [0, 5, 10, 15, 21, 22, 23, 24]) MIN_DAY_GAP 7 l)"
proof -
  let ?E = "map sample_event [0, 5, 10, 15, 21, 22, 23, 24]"
  have srt: "sorted (map date ?E)" by code_simp
  have lv: "assign_levels ?E MIN_DAY_GAP = [0, 1, 2, 3, 0, 4, 5, 0]" by code_simp
  have close: "date (?E ! 7) - date (?E ! 4) < MIN_DAY_GAP" by code_simp
  have same: "assign_levels ?E MIN_DAY_GAP ! 4 = assign_levels ?E MIN_DAY_GAP ! 7"
    unfolding lv by simp
  have len: "7 < length ?E" by simp
  from assign_levels_first_free_lane [OF srt, of MIN_DAY_GAP]
  have "\<forall>i j. i < j \<and> j < length ?E \<and> date (?E ! j) - date (?E ! i) < MIN_DAY_GAP
               \<and> assign_levels ?E MIN_DAY_GAP ! i = assign_levels ?E MIN_DAY_GAP ! j \<longrightarrow>
          assign_levels ?E MIN_DAY_GAP ! j = 0
          \<and> (\<forall>l < ANNOTATION_LEVELS. \<not> lane_free_at ?E MIN_DAY_GAP j l)"
    by blast
  then have "(4::nat) < 7 \<and> 7 < length ?E \<and> date (?E ! 7) - date (?E ! 4) < MIN_DAY_GAP
               \<and> assign_levels ?E MIN_DAY_GAP ! 4 = assign_levels ?E MIN_DAY_GAP ! 7 \<longrightarrow>
          assign_levels ?E MIN_DAY_GAP ! 7 = 0
          \<and> (\<forall>l < ANNOTATION_LEVELS. \<not> lane_free_at ?E MIN_DAY_GAP 7 l)"
    by blast
  with len close same have "\<forall>l < ANNOTATION_LEVELS. \<not> lane_free_at ?E MIN_DAY_GAP 7 l"
    by simp
  with srt lv close show ?thesis by blast
qed

section \<open>Properties of the event catalog\<close>

lemmas calendar_defs = ymd2ord_def days_before_year_def days_before_month_def
  DAYS_BEFORE_MONTH_def is_leap_def

text \<open>
  C10. \<open>get_events_in_range start end\<close> returns exactly the catalog entries with
  \<open>start \<le> date \<le> end\<close>, in the order of \<open>LLM_RELEASES\<close>. That order is not by date: the
  entry of 2024-09-25 follows the entry of 2024-10-22, and a range holding both hands
  the layout a list that is not chronological.
\<close>

theorem get_events_in_range_catalog_order:
  "get_events_in_range s e = filter (\<lambda>ev. s \<le> date ev \<and> date ev \<le> e) get_events_as_dicts
   \<and> set (get_events_in_range s e)
       = {ev \<in> set get_events_as_dicts. s \<le> date ev \<and> date ev \<le> e}
   \<and> subseq (get_events_in_range s e) get_events_as_dicts
   \<and> map (\<lambda>ev. (model ev, org ev, date ev)) get_events_as_dicts = LLM_RELEASES
   \<and> \<not> sorted (map date get_events_as_dicts)
   \<and> map (\<lambda>ev. (model ev, date ev))
        (get_events_in_range (ymd2ord 2024 9 1) (ymd2ord 2024 11 1))
       = [(''o1-preview'', ymd2ord 2024 9 12), (''Claude 3.5 Haiku'', ymd2ord 2024 10 22),
          (''Llama 3.2'', ymd2ord 2024 9 25)]
   \<and> ymd2ord 2024 9 25 < ymd2ord 2024 10 22
   \<and> \<not> sorted (map date (get_events_in_range (ymd2ord 2024 9 1) (ymd2ord 2024 11 1)))"
proof (intro conjI)
  show "get_events_in_range s e
          = filter (\<lambda>ev. s \<le> date ev \<and> date ev \<le> e) get_events_as_dicts"
    by (simp add: get_events_in_range_def)
  show "set (get_events_in_range s e)
          = {ev \<in> set get_events_as_dicts. s \<le> date ev \<and> date ev \<le> e}"
    by (simp add: get_events_in_range_def)
  show "subseq (get_events_in_range s e) get_events_as_dicts"
    by (simp add: get_events_in_range_def)
  show "map (\<lambda>ev. (model ev, org ev, date ev)) get_events_as_dicts = LLM_RELEASES"
    by (simp add: get_events_as_dicts_def split_def comp_def)
  show "\<not> sorted (map date get_events_as_dicts)"
    by (simp add: get_events_as_dicts_def LLM_RELEASES_def calendar_defs)
  show "map (\<lambda>ev. (model ev, date ev))
        (get_events_in_range (ymd2ord 2024 9 1) (ymd2ord 2024 11 1))
       = [(''o1-preview'', ymd2ord 2024 9 12), (''Claude 3.5 Haiku'', ymd2ord 2024 10 22),
          (''Llama 3.2'', ymd2ord 2024 9 25)]"
    by (simp add: get_events_in_range_def get_events_as_dicts_def LLM_RELEASES_def
        calendar_defs)
  show "ymd2ord 2024 9 25 < ymd2ord 2024 10 22"
    by (simp add: calendar_defs)
  show "\<not> sorted (map date (get_events_in_range (ymd2ord 2024 9 1) (ymd2ord 2024 11 1)))"
    by (simp add: get_events_in_range_def get_events_as_dicts_def LLM_RELEASES_def
        calendar_defs)
qed

theorem get_events_in_range_catalog_order_witness:
  "map model (get_events_in_range (ymd2ord 2023 3 1) (ymd2ord 2023 3 31))
     = [''GPT-4'', ''Claude 1'', ''Bard'']
   \<and> subseq (get_events_in_range (ymd2ord 2023 3 1) (ymd2ord 2023 3 31)) get_events_as_dicts"
proof -
  have "get_events_in_range (ymd2ord 2023 3 1) (ymd2ord 2023 3 31)
          = filter (\<lambda>ev. ymd2ord 2023 3 1 \<le> date ev \<and> date ev \<le> ymd2ord 2023 3 31)
              get_events_as_dicts"
    using get_events_in_range_catalog_order [of "ymd2ord 2023 3 1" "ymd2ord 2023 3 31"]
    by blast
  then have "map model (get_events_in_range (ymd2ord 2023 3 1) (ymd2ord 2023 3 31))
     = [''GPT-4'', ''Claude 1'', ''Bard'']"
    by (simp add: get_events_as_dicts_def LLM_RELEASES_def calendar_defs)
  then show ?thesis
    using get_events_in_range_catalog_order [of "ymd2ord 2023 3 1" "ymd2ord 2023 3 31"]
    by blast
qed

section \<open>Properties of the incremental fetch\<close>

lemma hours_loop_eq:
  "hours_loop remote day hs (c, ios) =
     (c + sum_list (map (hour_contribution remote day) hs), ios @ map (Get day) hs)"
  by (induction hs arbitrary: c ios)
     (auto simp: hour_contribution_def split: sum.splits)

lemma fetch_day_eq:
  "fetch_day remote st day =
     \<lparr>done_days = insert day (done_days st),
      totals = AList.update (month_key day)
                 (dict_get (totals st) (month_key day) 0
                    + sum_list (map (hour_contribution remote day) [0..<24]))
                 (totals st),
      trace = trace st @ map (Get day) [0..<24]
                @ [SaveCheckpoint (insert day (done_days st)),
                   SaveCsv (AList.update (month_key day)
                     (dict_get (totals st) (month_key day) 0
                        + sum_list (map (hour_contribution remote day) [0..<24]))
                     (totals st))]\<rparr>"
  by (simp add: fetch_day_def hours_loop_eq Let_def)

lemma done_days_fetch_day [simp]:
  "done_days (fetch_day remote st day) = insert day (done_days st)"
  by (simp add: fetch_day_eq)

lemma trace_fetch_day:
  "trace (fetch_day remote st day) =
     trace st @ map (Get day) [0..<24]
       @ [SaveCheckpoint (done_days (fetch_day remote st day)),
          SaveCsv (totals (fetch_day remote st day))]"
  by (simp add: fetch_day_eq)

lemma day_log_eq:
  "day_log remote st day =
     map (Get day) [0..<24]
       @ [SaveCheckpoint (done_days (fetch_day remote st day)),
          SaveCsv (totals (fetch_day remote st day))]"
  by (simp add: day_log_def trace_fetch_day)

lemma disk_after_append [simp]:
  "disk_after (xs @ ys) dk = disk_after ys (disk_after xs dk)"
  by (simp add: disk_after_def)

lemma disk_after_Nil [simp]: "disk_after [] dk = dk"
  by (simp add: disk_after_def)

lemma disk_after_Cons [simp]: "disk_after (x # xs) dk = disk_after xs (apply_io x dk)"
  by (simp add: disk_after_def)

lemma disk_after_gets [simp]: "disk_after (map (Get day) hs) dk = dk"
  by (induction hs) simp_all

lemma done_days_foldl:
  "done_days (foldl (fetch_day remote) st days) = done_days st \<union> set days"
  by (induction days arbitrary: st) auto

lemma trace_foldl_extends:
  "\<exists>post. trace (foldl (fetch_day remote) st days) = trace st @ post"
proof (induction days arbitrary: st)
  case Nil
  then show ?case by simp
next
  case (Cons d days)
  from Cons.IH [of "fetch_day remote st d"]
  obtain post where "trace (foldl (fetch_day remote) (fetch_day remote st d) days)
      = trace (fetch_day remote st d) @ post" by blast
  then show ?case by (simp add: trace_fetch_day)
qed

lemma disk_after_foldl:
  "days \<noteq> [] \<Longrightarrow>
     disk_after (trace (foldl (fetch_day remote) st days)) dk =
       dk\<lparr>checkpoint := done_days (foldl (fetch_day remote) st days),
          cache := totals (foldl (fetch_day remote) st days)\<rparr>"
proof (induction days arbitrary: st rule: rev_induct)
  case Nil
  then show ?case by simp
next
  case (snoc d days)
  show ?case by (simp add: trace_fetch_day)
qed

lemma set_pending_days:
  "set (pending_days s e done) = {s..e} - done"
  by (auto simp: pending_days_def iter_date_range_def)

lemma distinct_pending_days: "distinct (pending_days s e done)"
  by (simp add: pending_days_def iter_date_range_def)

lemma pending_days_empty_iff: "pending_days s e done = [] \<longleftrightarrow> {s..e} \<subseteq> done"
  using set_pending_days [of s e "done"] by (metis Diff_eq_empty_iff set_empty)

lemma checkpoint_after_fetch:
  "checkpoint (disk_after (snd (fetch remote s e force dk)) dk) =
     (if pending_days s e (if force then {} else checkpoint dk) = [] then checkpoint dk
      else (if force then {} else checkpoint dk) \<union> {s..e})"
  by (auto simp: fetch_def Let_def disk_after_foldl done_days_foldl set_pending_days)

lemma cache_after_fetch:
  "cache (disk_after (snd (fetch remote s e force dk)) dk) = fst (fetch remote s e force dk)"
  by (auto simp: fetch_def Let_def disk_after_foldl)

lemma range_checkpointed_after_fetch:
  "{s..e} \<subseteq> checkpoint (disk_after (snd (fetch remote s e force dk)) dk)"
  by (auto simp: checkpoint_after_fetch pending_days_empty_iff)

lemma fetch_log_day:
  assumes "distinct days" "set days \<inter> done_days st = {}"
    and "\<forall>D'. SaveCheckpoint D' \<in> set (trace st) \<longrightarrow> D' \<subseteq> done_days st"
    and "day \<in> set days"
  shows "\<exists>pre post D T.
           trace (foldl (fetch_day remote) st days)
             = pre @ map (Get day) [0..<24] @ [SaveCheckpoint D, SaveCsv T] @ post
           \<and> day \<in> D \<and> (\<forall>D'. SaveCheckpoint D' \<in> set pre \<longrightarrow> day \<notin> D')"
  using assms
proof (induction days arbitrary: st)
  case Nil
  then show ?case by simp
next
  case (Cons d days)
  let ?st1 = "fetch_day remote st d"
  show ?case
  proof (cases "day = d")
    case True
    obtain post where post: "trace (foldl (fetch_day remote) ?st1 days) = trace ?st1 @ post"
      using trace_foldl_extends by blast
    have "trace (foldl (fetch_day remote) st (d # days))
            = trace st @ map (Get day) [0..<24]
                @ [SaveCheckpoint (done_days ?st1), SaveCsv (totals ?st1)] @ post"
      using post True by (simp add: trace_fetch_day)
    moreover have "day \<in> done_days ?st1" using True by simp
    moreover have "\<forall>D'. SaveCheckpoint D' \<in> set (trace st) \<longrightarrow> day \<notin> D'"
      using Cons.prems(2,3) True by auto
    ultimately show ?thesis by blast
  next
    case False
    with Cons.prems(4) have in_rest: "day \<in> set days" by simp
    have d1: "distinct days" using Cons.prems(1) by simp
    have d2: "set days \<inter> done_days ?st1 = {}" using Cons.prems(1,2) by auto
    have d3: "\<forall>D'. SaveCheckpoint D' \<in> set (trace ?st1) \<longrightarrow> D' \<subseteq> done_days ?st1"
      using Cons.prems(3) by (auto simp: trace_fetch_day)
    from Cons.IH [OF d1 d2 d3 in_rest] show ?thesis by simp
  qed
qed

lemma fetch_log_pending:
  assumes "day \<in> set (pending_days s e (if force then {} else checkpoint dk))"
  shows "\<exists>pre post D T.
           snd (fetch remote s e force dk)
             = pre @ map (Get day) [0..<24] @ [SaveCheckpoint D, SaveCsv T] @ post
           \<and> day \<in> D \<and> (\<forall>D'. SaveCheckpoint D' \<in> set pre \<longrightarrow> day \<notin> D')"
proof -
  let ?done = "if force then {} else checkpoint dk"
  let ?st0 = "\<lparr>done_days = ?done, totals = cache dk, trace = []\<rparr>"
  have ne: "pending_days s e ?done \<noteq> []" using assms by auto
  have "set (pending_days s e ?done) \<inter> done_days ?st0 = {}"
    by (auto simp: set_pending_days)
  moreover have "\<forall>D'. SaveCheckpoint D' \<in> set (trace ?st0) \<longrightarrow> D' \<subseteq> done_days ?st0"
    by simp
  ultimately have "\<exists>pre post D T.
           trace (foldl (fetch_day remote) ?st0 (pending_days s e ?done))
             = pre @ map (Get day) [0..<24] @ [SaveCheckpoint D, SaveCsv T] @ post
           \<and> day \<in> D \<and> (\<forall>D'. SaveCheckpoint D' \<in> set pre \<longrightarrow> day \<notin> D')"
    using fetch_log_day [OF distinct_pending_days _ _ assms] by blast
  moreover have "snd (fetch remote s e force dk)
      = trace (foldl (fetch_day remote) ?st0 (pending_days s e ?done))"
    using ne by (simp add: fetch_def Let_def)
  ultimately show ?thesis by simp
qed

lemma attempt_list:
  "List.enumerate 1 (map Some RETRY_BACKOFF @ [None])
     = [(1, Some 2), (2, Some 5), (3, Some 15), (4, Some 30), (5, Some 60), (6, None)]"
  by (simp add: RETRY_BACKOFF_def enumerate_eq_zip upt_rec [of 1])

lemma stream_hourly_file_attempts:
  "stream_hourly_file remote day hour =
     attempt_loop (remote day hour)
       [(1, Some 2), (2, Some 5), (3, Some 15), (4, Some 30), (5, Some 60), (6, None)]"
  unfolding stream_hourly_file_def attempt_list ..

lemma stream_404:
  assumes "k < 6" "\<forall>a. 1 \<le> a \<and> a \<le> k \<longrightarrow> remote day hour a = RequestError"
    and "remote day hour (Suc k) = Status404"
  shows "stream_hourly_file remote day hour = Inr (- 1)"
proof -
  from assms(1) consider "k = 0" | "k = 1" | "k = 2" | "k = 3" | "k = 4" | "k = 5"
    by linarith
  then show ?thesis
  proof cases
    case 1 with assms show ?thesis
      by (simp add: stream_hourly_file_attempts MAX_RETRIES_def)
  next
    case 2 with assms show ?thesis
      by (simp add: stream_hourly_file_attempts MAX_RETRIES_def numeral_2_eq_2)
  next
    case 3 with assms show ?thesis
      by (simp add: stream_hourly_file_attempts MAX_RETRIES_def eval_nat_numeral)
  next
    case 4 with assms show ?thesis
      by (simp add: stream_hourly_file_attempts MAX_RETRIES_def eval_nat_numeral)
  next
    case 5 with assms show ?thesis
      by (simp add: stream_hourly_file_attempts MAX_RETRIES_def eval_nat_numeral)
  next
    case 6 with assms show ?thesis
      by (simp add: stream_hourly_file_attempts MAX_RETRIES_def eval_nat_numeral)
  qed
qed

lemma stream_exhausted:
  assumes "\<forall>a. 1 \<le> a \<and> a \<le> 6 \<longrightarrow> remote day hour a = RequestError"
  shows "stream_hourly_file remote day hour = Inl RequestException"
  using assms by (simp add: stream_hourly_file_attempts MAX_RETRIES_def)

lemma map_of_fetch_day:
  "map_of (totals (fetch_day remote st day)) (month_key day) =
     Some (dict_get (totals st) (month_key day) 0
             + sum_list (map (hour_contribution remote day) [0..<24]))"
  by (simp add: fetch_day_eq update_conv')

text \<open>
  C4. For every pending day of a run, the log of the run holds the requests for the
  hours 0 to 23 of that day, in order, directly followed by the write of a checkpoint
  that contains the day; no checkpoint written earlier contains it, and the day is in
  the checkpoint file after the run. A step of the day loop always adds the day, and
  the month's total grows by the sum of the hours' contributions, where an hour
  answered by 404 (at the first attempt or after failed ones) and an hour whose six
  attempts all fail both contribute zero.
\<close>

theorem fetch_attempts_all_hours_then_marks_done:
  "(\<forall>d \<in> set (pending_days s e (if force then {} else checkpoint dk)).
      (\<exists>pre post D T.
         snd (fetch remote s e force dk)
           = pre @ map (Get d) [0..<24] @ [SaveCheckpoint D, SaveCsv T] @ post
         \<and> d \<in> D \<and> (\<forall>D'. SaveCheckpoint D' \<in> set pre \<longrightarrow> d \<notin> D'))
      \<and> d \<in> checkpoint (disk_after (snd (fetch remote s e force dk)) dk))
   \<and> done_days (fetch_day remote st day) = insert day (done_days st)
   \<and> trace (fetch_day remote st day)
        = trace st @ map (Get day) [0..<24]
            @ [SaveCheckpoint (insert day (done_days st)),
               SaveCsv (totals (fetch_day remote st day))]
   \<and> map_of (totals (fetch_day remote st day)) (month_key day)
        = Some (dict_get (totals st) (month_key day) 0
                  + sum_list (map (hour_contribution remote day) [0..<24]))
   \<and> (\<forall>hour k. k < 6 \<and> (\<forall>a. 1 \<le> a \<and> a \<le> k \<longrightarrow> remote day hour a = RequestError)
          \<and> remote day hour (Suc k) = Status404 \<longrightarrow>
        stream_hourly_file remote day hour = Inr (- 1)
        \<and> hour_contribution remote day hour = 0)
   \<and> (\<forall>hour. (\<forall>a. 1 \<le> a \<and> a \<le> 6 \<longrightarrow> remote day hour a = RequestError) \<longrightarrow>
        stream_hourly_file remote day hour = Inl RequestException
        \<and> hour_contribution remote day hour = 0)"
proof -
  have a: "\<forall>d \<in> set (pending_days s e (if force then {} else checkpoint dk)).
      (\<exists>pre post D T.
         snd (fetch remote s e force dk)
           = pre @ map (Get d) [0..<24] @ [SaveCheckpoint D, SaveCsv T] @ post
         \<and> d \<in> D \<and> (\<forall>D'. SaveCheckpoint D' \<in> set pre \<longrightarrow> d \<notin> D'))
      \<and> d \<in> checkpoint (disk_after (snd (fetch remote s e force dk)) dk)"
  proof
    fix d assume d: "d \<in> set (pending_days s e (if force then {} else checkpoint dk))"
    then have "d \<in> {s..e}" by (simp add: set_pending_days)
    then have "d \<in> checkpoint (disk_after (snd (fetch remote s e force dk)) dk)"
      using range_checkpointed_after_fetch [of s e remote force dk] by blast
    with fetch_log_pending [OF d, of remote]
    show "(\<exists>pre post D T.
         snd (fetch remote s e force dk)
           = pre @ map (Get d) [0..<24] @ [SaveCheckpoint D, SaveCsv T] @ post
         \<and> d \<in> D \<and> (\<forall>D'. SaveCheckpoint D' \<in> set pre \<longrightarrow> d \<notin> D'))
      \<and> d \<in> checkpoint (disk_after (snd (fetch remote s e force dk)) dk)"
      by blast
  qed
  have b: "done_days (fetch_day remote st day) = insert day (done_days st)"
    by simp
  have c: "trace (fetch_day remote st day)
        = trace st @ map (Get day) [0..<24]
            @ [SaveCheckpoint (insert day (done_days st)),
               SaveCsv (totals (fetch_day remote st day))]"
    using trace_fetch_day [of remote st day] by simp
  have f: "\<forall>hour k. k < 6 \<and> (\<forall>a. 1 \<le> a \<and> a \<le> k \<longrightarrow> remote day hour a = RequestError)
          \<and> remote day hour (Suc k) = Status404 \<longrightarrow>
        stream_hourly_file remote day hour = Inr (- 1)
        \<and> hour_contribution remote day hour = 0"
  proof (intro allI impI)
    fix hour k
    assume h: "k < 6 \<and> (\<forall>a. 1 \<le> a \<and> a \<le> k \<longrightarrow> remote day hour a = RequestError)
          \<and> remote day hour (Suc k) = Status404"
    then have "stream_hourly_file remote day hour = Inr (- 1)"
      using stream_404 [of k remote day hour] by blast
    then show "stream_hourly_file remote day hour = Inr (- 1)
        \<and> hour_contribution remote day hour = 0"
      by (simp add: hour_contribution_def)
  qed
  have g: "\<forall>hour. (\<forall>a. 1 \<le> a \<and> a \<le> 6 \<longrightarrow> remote day hour a = RequestError) \<longrightarrow>
        stream_hourly_file remote day hour = Inl RequestException
        \<and> hour_contribution remote day hour = 0"
  proof (intro allI impI)
    fix hour
    assume "\<forall>a. 1 \<le> a \<and> a \<le> 6 \<longrightarrow> remote day hour a = RequestError"
    then have "stream_hourly_file remote day hour = Inl RequestException"
      by (rule stream_exhausted)
    then show "stream_hourly_file remote day hour = Inl RequestException
        \<and> hour_contribution remote day hour = 0"
      by (simp add: hour_contribution_def)
  qed
  from a b c map_of_fetch_day [of remote st day] f g show ?thesis by (intro conjI)
qed

text \<open>
  C5. After any run over a range, a second run over the same range without \<open>force\<close>
  finds no pending day, performs no request and no write, and returns the cache as
  the first run left it, which is the dict the first run returned.
\<close>

theorem fetch_second_run_changes_nothing:
  "pending_days s e (checkpoint (disk_after (snd (fetch r1 s e force dk)) dk)) = []
   \<and> fetch r2 s e False (disk_after (snd (fetch r1 s e force dk)) dk)
       = (cache (disk_after (snd (fetch r1 s e force dk)) dk), [])
   \<and> cache (disk_after (snd (fetch r1 s e force dk)) dk) = fst (fetch r1 s e force dk)"
proof -
  let ?dk1 = "disk_after (snd (fetch r1 s e force dk)) dk"
  have p: "pending_days s e (checkpoint ?dk1) = []"
    using range_checkpointed_after_fetch [of s e r1 force dk]
    by (simp add: pending_days_empty_iff)
  then have "fetch r2 s e False ?dk1 = (cache ?dk1, [])"
    by (simp add: fetch_def)
  with p cache_after_fetch [of r1 s e force dk] show ?thesis by simp
qed

lemma get_in_fetch_log:
  assumes "d \<in> set (pending_days s e (if force then {} else checkpoint dk))" "h < 24"
  shows "Get d h \<in> set (snd (fetch remote s e force dk))"
proof -
  from fetch_log_pending [OF assms(1), of remote] obtain pre post D T where
    "snd (fetch remote s e force dk)
           = pre @ map (Get d) [0..<24] @ [SaveCheckpoint D, SaveCsv T] @ post" by blast
  moreover have "Get d h \<in> set (map (Get d) [0..<24])" using assms(2) by simp
  ultimately show ?thesis by simp
qed

text \<open>
  C9, as amended. A run with \<open>force\<close> over a range with \<open>start \<le> end\<close> leaves the
  checkpoint file holding exactly the days of the range: a day checkpointed before
  and outside the range is gone, and a later run without \<open>force\<close> over a range that
  holds it requests it again. Over a range with \<open>end < start\<close> the run writes nothing
  and the checkpoint file is unchanged.
\<close>

theorem force_rewrites_checkpoint_to_range:
  "(s \<le> e \<longrightarrow>
      checkpoint (disk_after (snd (fetch remote s e True dk)) dk) = {s..e}
      \<and> (\<forall>d. d \<in> checkpoint dk \<and> d \<notin> {s..e} \<longrightarrow>
            d \<notin> checkpoint (disk_after (snd (fetch remote s e True dk)) dk)
            \<and> (\<forall>r2 s2 e2. s2 \<le> d \<and> d \<le> e2 \<longrightarrow>
                 d \<in> set (pending_days s2 e2
                            (checkpoint (disk_after (snd (fetch remote s e True dk)) dk)))
                 \<and> Get d 0 \<in> set (snd (fetch r2 s2 e2 False
                            (disk_after (snd (fetch remote s e True dk)) dk))))))
   \<and> (e < s \<longrightarrow>
        snd (fetch remote s e True dk) = []
        \<and> disk_after (snd (fetch remote s e True dk)) dk = dk)"
proof (intro conjI impI)
  let ?dk1 = "disk_after (snd (fetch remote s e True dk)) dk"
  assume se: "s \<le> e"
  then have "pending_days s e {} \<noteq> []" by (simp add: pending_days_empty_iff)
  then show ck: "checkpoint ?dk1 = {s..e}"
    by (simp add: checkpoint_after_fetch)
  show "\<forall>d. d \<in> checkpoint dk \<and> d \<notin> {s..e} \<longrightarrow>
            d \<notin> checkpoint ?dk1
            \<and> (\<forall>r2 s2 e2. s2 \<le> d \<and> d \<le> e2 \<longrightarrow>
                 d \<in> set (pending_days s2 e2 (checkpoint ?dk1))
                 \<and> Get d 0 \<in> set (snd (fetch r2 s2 e2 False ?dk1)))"
  proof (intro allI impI conjI)
    fix d assume d: "d \<in> checkpoint dk \<and> d \<notin> {s..e}"
    then show "d \<notin> checkpoint ?dk1" by (simp only: ck) simp
    fix r2 s2 e2 assume r: "s2 \<le> d \<and> d \<le> e2"
    with d show p: "d \<in> set (pending_days s2 e2 (checkpoint ?dk1))"
      by (simp only: ck set_pending_days) simp
    then show "Get d 0 \<in> set (snd (fetch r2 s2 e2 False ?dk1))"
      using get_in_fetch_log [of d s2 e2 False ?dk1 0 r2] by simp
  qed
next
  assume "e < s"
  then have "pending_days s e {} = []" by (simp add: pending_days_empty_iff)
  then show "snd (fetch remote s e True dk) = []"
    and "disk_after (snd (fetch remote s e True dk)) dk = dk"
    by (simp_all add: fetch_def)
qed

text \<open>
  C9 as stated fails for an empty range: with \<open>force\<close> from 2023-01-02 to
  2023-01-01
  the day 2022-12-31, outside the range, stays in the checkpoint file.
\<close>

theorem force_over_empty_range_keeps_checkpoint:
  "ymd2ord 2022 12 31 \<notin> {ymd2ord 2023 1 2 .. ymd2ord 2023 1 1}
   \<and> ymd2ord 2022 12 31 \<in> checkpoint (disk_after
        (snd (fetch sample_remote (ymd2ord 2023 1 2) (ymd2ord 2023 1 1) True
                \<lparr>checkpoint = {ymd2ord 2022 12 31}, cache = []\<rparr>))
        \<lparr>checkpoint = {ymd2ord 2022 12 31}, cache = []\<rparr>)"
  by (simp add: fetch_def pending_days_def iter_date_range_def calendar_defs)


lemma map_of_dict_update:
  "map_of (dict_update d other) = map_of d ++ map_of (rev other)"
  unfolding dict_update_def
proof (induction other arbitrary: d)
  case Nil
  then show ?case by simp
next
  case (Cons kv other)
  obtain k v where kv: "kv = (k, v)" by (cases kv)
  show ?case
    by (simp add: kv Cons.IH update_conv' map_add_def fun_eq_iff split: option.splits)
qed

lemma bulk_refetch_overwrites:
  assumes "distinct (map fst new_totals)" "map_of new_totals k = Some v"
  shows "map_of (dict_update existing new_totals) k = Some v"
proof -
  have "distinct (map fst (rev new_totals))"
    using assms(1) by (simp add: rev_map [symmetric])
  moreover have "(k, v) \<in> set (rev new_totals)"
    using assms by simp
  ultimately have "map_of (rev new_totals) k = Some v"
    by (simp only: map_of_eq_Some_iff)
  then show ?thesis by (simp add: map_of_dict_update map_add_def)
qed

lemma main_fetch_step_overwrites:
  assumes "filter (\<lambda>mo. map_of existing mo = None) all_months = missing" "missing \<noteq> []"
    and "distinct (map fst (bigquery_fetch (hd missing) (last missing)))"
    and "map_of (bigquery_fetch (hd missing) (last missing)) k = Some v"
  shows "map_of (main_fetch_step bigquery_fetch all_months existing) k = Some v"
  using assms bulk_refetch_overwrites [OF assms(3,4), of existing]
  by (simp add: main_fetch_step_def Let_def)

lemma raw_after_Nil [simp]: "raw_after [] rd = rd"
  by (simp add: raw_after_def)

lemma raw_after_Cons [simp]: "raw_after (x # xs) rd = raw_after xs (raw_apply x rd)"
  by (simp add: raw_after_def)

lemma raw_after_append [simp]: "raw_after (xs @ ys) rd = raw_after ys (raw_after xs rd)"
  by (simp add: raw_after_def)

lemma raw_after_requests [simp]: "raw_after (map (Request day) hs) rd = rd"
  by (induction hs) simp_all

lemma raw_after_append_checkpoint [simp]:
  "raw_after (map AppendCheckpoint t) rd = rd\<lparr>checkpoint_bytes := checkpoint_bytes rd @ t\<rparr>"
  by (induction t arbitrary: rd) simp_all

lemma raw_after_append_csv [simp]:
  "raw_after (map AppendCsv t) rd = rd\<lparr>cache_bytes := cache_bytes rd @ t\<rparr>"
  by (induction t arbitrary: rd) simp_all

lemma raw_log_gets: "raw_log ck cs (map (Get day) hs) = map (Request day) hs"
  by (induction hs) (simp_all add: raw_log_def)

lemma raw_log_append: "raw_log ck cs (xs @ ys) = raw_log ck cs xs @ raw_log ck cs ys"
  by (simp add: raw_log_def)

lemma raw_log_day:
  "raw_log ck cs (day_log remote st day) =
     map (Request day) [0..<24]
       @ (TruncateCheckpoint # map AppendCheckpoint (ck (insert day (done_days st))))
       @ (TruncateCsv # map AppendCsv (cs (totals (fetch_day remote st day))))"
  by (simp add: day_log_eq raw_log_append raw_log_gets) (simp add: raw_log_def)

lemma prefix_write_cases:
  assumes "prefix p (t # map f text)"
  shows "p = [] \<or> (\<exists>text'. prefix text' text \<and> p = t # map f text')"
proof (cases p)
  case Nil
  then show ?thesis by simp
next
  case (Cons x xs)
  with assms have x: "x = t" and "prefix xs (map f text)" by simp_all
  then obtain text' where "prefix text' text" "xs = map f text'"
    by (metis prefix_map_rightE)
  with Cons x show ?thesis by blast
qed

lemma prefix_day_cases:
  assumes "prefix p (map (Request day) hs @ (t1 # map f1 text1) @ (t2 # map f2 text2))"
  shows "(\<exists>hs'. p = map (Request day) hs')
       \<or> (\<exists>u. prefix u text1 \<and> p = map (Request day) hs @ t1 # map f1 u)
       \<or> (\<exists>u. prefix u text2 \<and> p = map (Request day) hs @ (t1 # map f1 text1) @ t2 # map f2 u)"
proof -
  let ?A = "map (Request day) hs" and ?B = "t1 # map f1 text1" and ?C = "t2 # map f2 text2"
  from assms have "prefix p ?A \<or> (\<exists>us. p = ?A @ us \<and> prefix us (?B @ ?C))"
    by (simp only: prefix_append)
  then show ?thesis
  proof
    assume "prefix p ?A"
    then show ?thesis by (metis prefix_map_rightE)
  next
    assume "\<exists>us. p = ?A @ us \<and> prefix us (?B @ ?C)"
    then obtain us where us: "p = ?A @ us" "prefix us (?B @ ?C)" by blast
    then have "prefix us ?B \<or> (\<exists>vs. us = ?B @ vs \<and> prefix vs ?C)"
      by (simp only: prefix_append)
    then show ?thesis
    proof
      assume "prefix us ?B"
      from prefix_write_cases [OF this] us(1) show ?thesis
        by (metis append_Nil2 list.simps(8) prefix_order.eq_iff)
    next
      assume "\<exists>vs. us = ?B @ vs \<and> prefix vs ?C"
      then obtain vs where vs: "us = ?B @ vs" "prefix vs ?C" by blast
      from prefix_write_cases [OF vs(2)] have "vs = [] \<or> (\<exists>u. prefix u text2 \<and> vs = t2 # map f2 u)" .
      then show ?thesis
      proof
        assume "vs = []"
        with us(1) vs(1) have "p = ?A @ t1 # map f1 text1" by simp
        then show ?thesis by blast
      next
        assume "\<exists>u. prefix u text2 \<and> vs = t2 # map f2 u"
        with us(1) vs(1) show ?thesis by auto
      qed
    qed
  qed
qed

lemma raw_log_complete:
  "raw_after (raw_log ck cs ios)
     \<lparr>checkpoint_bytes = ck (checkpoint dk), cache_bytes = cs (cache dk)\<rparr>
   = \<lparr>checkpoint_bytes = ck (checkpoint (disk_after ios dk)),
      cache_bytes = cs (cache (disk_after ios dk))\<rparr>"
proof (induction ios arbitrary: dk)
  case Nil
  then show ?case by (simp add: raw_log_def)
next
  case (Cons x ios)
  have step: "raw_after (raw_steps ck cs x)
       \<lparr>checkpoint_bytes = ck (checkpoint dk), cache_bytes = cs (cache dk)\<rparr>
     = \<lparr>checkpoint_bytes = ck (checkpoint (apply_io x dk)),
        cache_bytes = cs (cache (apply_io x dk))\<rparr>"
    by (cases x) simp_all
  have "raw_log ck cs (x # ios) = raw_steps ck cs x @ raw_log ck cs ios"
    by (simp add: raw_log_def)
  then show ?case
    by (simp only: raw_after_append step Cons.IH disk_after_Cons)
qed


lemma pending_single: "pending_days d d {} = [d]"
  by (simp add: pending_days_def iter_date_range_def)

text \<open>
  C2. Re-fetching a month that the cache already holds should replace the stored
  total. The incremental path does not: a run with \<open>force\<close> over one day returns, for
  that day's month, the stored total plus the day's count. On a cache built by
  fetching 2023-01-01 (100 commits), fetching the same day again with \<open>force\<close> gives
  200 for 2023-01. The bulk path does replace: a cached 100 for 2023-02 becomes the 8
  that the query returns.
\<close>

theorem force_refetch_adds_to_total:
  "map_of (fst (fetch remote d d True dk)) (month_key d)
     = Some (dict_get (cache dk) (month_key d) 0
               + sum_list (map (hour_contribution remote d) [0..<24]))
   \<and> cache (disk_after
        (snd (fetch sample_remote (ymd2ord 2023 1 1) (ymd2ord 2023 1 1) False
                \<lparr>checkpoint = {}, cache = []\<rparr>))
        \<lparr>checkpoint = {}, cache = []\<rparr>) = [(''2023-01'', 100)]
   \<and> fst (fetch sample_remote (ymd2ord 2023 1 1) (ymd2ord 2023 1 1) True
        \<lparr>checkpoint = {ymd2ord 2023 1 1}, cache = [(''2023-01'', 100)]\<rparr>)
       = [(''2023-01'', 200)]
   \<and> main_fetch_step (\<lambda>fetch_start fetch_end.
            [(''2023-01'', 7), (''2023-02'', 8), (''2023-03'', 9)])
         [''2023-01'', ''2023-02'', ''2023-03''] [(''2023-02'', 100)]
       = [(''2023-02'', 8), (''2023-01'', 7), (''2023-03'', 9)]"
proof (intro conjI)
  show "main_fetch_step (\<lambda>fetch_start fetch_end.
            [(''2023-01'', 7), (''2023-02'', 8), (''2023-03'', 9)])
         [''2023-01'', ''2023-02'', ''2023-03''] [(''2023-02'', 100)]
       = [(''2023-02'', 8), (''2023-01'', 7), (''2023-03'', 9)]"
    by code_simp
  show "map_of (fst (fetch remote d d True dk)) (month_key d)
     = Some (dict_get (cache dk) (month_key d) 0
               + sum_list (map (hour_contribution remote d) [0..<24]))"
    by (simp add: fetch_def pending_single Let_def map_of_fetch_day)
  show "cache (disk_after
        (snd (fetch sample_remote (ymd2ord 2023 1 1) (ymd2ord 2023 1 1) False
                \<lparr>checkpoint = {}, cache = []\<rparr>))
        \<lparr>checkpoint = {}, cache = []\<rparr>) = [(''2023-01'', 100)]"
    by code_simp
  show "fst (fetch sample_remote (ymd2ord 2023 1 1) (ymd2ord 2023 1 1) True
        \<lparr>checkpoint = {ymd2ord 2023 1 1}, cache = [(''2023-01'', 100)]\<rparr>)
       = [(''2023-01'', 200)]"
    by code_simp
qed

theorem force_refetch_adds_to_total_witness:
  "map_of (fst (fetch sample_remote (ymd2ord 2023 1 1) (ymd2ord 2023 1 1) True
        \<lparr>checkpoint = {ymd2ord 2023 1 1}, cache = [(''2023-01'', 100)]\<rparr>)) ''2023-01''
     = Some 200
   \<and> dict_get [(''2023-01'', 100)] ''2023-01'' 0 = (100::int)
   \<and> sum_list (map (hour_contribution sample_remote (ymd2ord 2023 1 1)) [0..<24]) = 100"
proof -
  let ?d = "ymd2ord 2023 1 1"
  let ?dk = "\<lparr>checkpoint = {?d}, cache = [(''2023-01'', 100)]\<rparr>"
  have k: "month_key ?d = ''2023-01''" by code_simp
  have g: "dict_get [(''2023-01'', 100)] ''2023-01'' 0 = (100::int)" by code_simp
  have c: "sum_list (map (hour_contribution sample_remote ?d) [0..<24]) = 100" by code_simp
  from force_refetch_adds_to_total [of sample_remote ?d ?dk]
  have "map_of (fst (fetch sample_remote ?d ?d True ?dk)) (month_key ?d)
     = Some (dict_get (cache ?dk) (month_key ?d) 0
               + sum_list (map (hour_contribution sample_remote ?d) [0..<24]))"
    by blast
  then have "map_of (fst (fetch sample_remote ?d ?d True ?dk)) ''2023-01'' = Some 200"
    unfolding k c by (simp add: g)
  with g c show ?thesis by blast
qed


theorem fetch_attempts_all_hours_then_marks_done_witness:
  "ymd2ord 2023 1 1 \<in> set (pending_days (ymd2ord 2023 1 1) (ymd2ord 2023 1 2) {})
   \<and> ymd2ord 2023 1 1 \<in> checkpoint (disk_after
        (snd (fetch sample_remote (ymd2ord 2023 1 1) (ymd2ord 2023 1 2) False
               \<lparr>checkpoint = {}, cache = []\<rparr>)) \<lparr>checkpoint = {}, cache = []\<rparr>)
   \<and> sample_remote (ymd2ord 2023 1 1) 7 (Suc 0) = Status404
   \<and> stream_hourly_file sample_remote (ymd2ord 2023 1 1) 7 = Inr (- 1)
   \<and> hour_contribution sample_remote (ymd2ord 2023 1 1) 7 = 0
   \<and> stream_hourly_file (\<lambda>day hour attempt. RequestError) (ymd2ord 2023 1 1) 7
        = Inl RequestException
   \<and> hour_contribution (\<lambda>day hour attempt. RequestError) (ymd2ord 2023 1 1) 7 = 0"
proof -
  let ?d = "ymd2ord 2023 1 1" and ?e = "ymd2ord 2023 1 2"
  let ?dk = "\<lparr>checkpoint = {}, cache = []\<rparr> :: disk"
  let ?st = "\<lparr>done_days = {}, totals = [], trace = []\<rparr> :: fetch_state"
  have p: "?d \<in> set (pending_days ?d ?e (if False then {} else checkpoint ?dk))"
    by (simp add: set_pending_days calendar_defs)
  have r: "sample_remote ?d 7 (Suc 0) = Status404" by (simp add: sample_remote_def)
  note inst = fetch_attempts_all_hours_then_marks_done [of ?d ?e False ?dk sample_remote ?st ?d]
  from inst p have a: "?d \<in> checkpoint (disk_after (snd (fetch sample_remote ?d ?e False ?dk)) ?dk)"
    by blast
  from inst have "\<forall>hour k. k < 6
      \<and> (\<forall>a. 1 \<le> a \<and> a \<le> k \<longrightarrow> sample_remote ?d hour a = RequestError)
      \<and> sample_remote ?d hour (Suc k) = Status404 \<longrightarrow>
        stream_hourly_file sample_remote ?d hour = Inr (- 1)
        \<and> hour_contribution sample_remote ?d hour = 0"
    by blast
  then have "(0::nat) < 6
      \<and> (\<forall>a. 1 \<le> a \<and> a \<le> 0 \<longrightarrow> sample_remote ?d 7 a = RequestError)
      \<and> sample_remote ?d 7 (Suc 0) = Status404 \<longrightarrow>
        stream_hourly_file sample_remote ?d 7 = Inr (- 1)
        \<and> hour_contribution sample_remote ?d 7 = 0"
    by blast
  with r have b: "stream_hourly_file sample_remote ?d 7 = Inr (- 1)
        \<and> hour_contribution sample_remote ?d 7 = 0"
    by simp
  from fetch_attempts_all_hours_then_marks_done [of ?d ?e False ?dk "\<lambda>day hour attempt. RequestError" ?st ?d]
  have "\<forall>hour. (\<forall>a. 1 \<le> a \<and> a \<le> 6 \<longrightarrow> (\<lambda>day hour attempt. RequestError) ?d hour a = RequestError) \<longrightarrow>
        stream_hourly_file (\<lambda>day hour attempt. RequestError) ?d hour = Inl RequestException
        \<and> hour_contribution (\<lambda>day hour attempt. RequestError) ?d hour = 0"
    by blast
  then have c: "stream_hourly_file (\<lambda>day hour attempt. RequestError) ?d 7 = Inl RequestException
        \<and> hour_contribution (\<lambda>day hour attempt. RequestError) ?d 7 = 0"
    by simp
  from p a r b c show ?thesis by simp
qed

theorem fetch_second_run_changes_nothing_witness:
  "fetch (\<lambda>day hour attempt. RequestError) (ymd2ord 2023 1 1) (ymd2ord 2023 1 1) False
     (disk_after (snd (fetch sample_remote (ymd2ord 2023 1 1) (ymd2ord 2023 1 1) False
                         \<lparr>checkpoint = {}, cache = []\<rparr>)) \<lparr>checkpoint = {}, cache = []\<rparr>)
     = ([(''2023-01'', 100)], [])"
proof -
  let ?d = "ymd2ord 2023 1 1"
  let ?dk = "\<lparr>checkpoint = {}, cache = []\<rparr> :: disk"
  have "fst (fetch sample_remote ?d ?d False ?dk) = [(''2023-01'', 100)]" by code_simp
  with fetch_second_run_changes_nothing [of ?d ?d sample_remote False ?dk "\<lambda>day hour attempt. RequestError"]
  show ?thesis by simp
qed

theorem force_rewrites_checkpoint_to_range_witness:
  "ymd2ord 2023 1 1 \<le> ymd2ord 2023 1 2
   \<and> checkpoint (disk_after
        (snd (fetch sample_remote (ymd2ord 2023 1 1) (ymd2ord 2023 1 2) True
                \<lparr>checkpoint = {ymd2ord 2022 12 31}, cache = []\<rparr>))
        \<lparr>checkpoint = {ymd2ord 2022 12 31}, cache = []\<rparr>)
       = {ymd2ord 2023 1 1 .. ymd2ord 2023 1 2}
   \<and> ymd2ord 2022 12 31 \<notin> {ymd2ord 2023 1 1 .. ymd2ord 2023 1 2}"
proof -
  have le: "ymd2ord 2023 1 1 \<le> ymd2ord 2023 1 2" by (simp add: calendar_defs)
  have out: "ymd2ord 2022 12 31 \<notin> {ymd2ord 2023 1 1 .. ymd2ord 2023 1 2}"
    by (simp add: calendar_defs)
  from force_rewrites_checkpoint_to_range [of "ymd2ord 2023 1 1" "ymd2ord 2023 1 2" sample_remote
      "\<lparr>checkpoint = {ymd2ord 2022 12 31}, cache = []\<rparr>"] le
  have "checkpoint (disk_after
        (snd (fetch sample_remote (ymd2ord 2023 1 1) (ymd2ord 2023 1 2) True
                \<lparr>checkpoint = {ymd2ord 2022 12 31}, cache = []\<rparr>))
        \<lparr>checkpoint = {ymd2ord 2022 12 31}, cache = []\<rparr>)
       = {ymd2ord 2023 1 1 .. ymd2ord 2023 1 2}"
    by blast
  with le out show ?thesis by blast
qed

section \<open>Properties of the cache file\<close>

lemma digit_char_digit: "n < 10 \<Longrightarrow> is_digit (digit_char n) \<and> digit_val (digit_char n) = n"
proof -
  assume "n < 10"
  then consider "n = 0" | "n = 1" | "n = 2" | "n = 3" | "n = 4" | "n = 5" | "n = 6"
    | "n = 7" | "n = 8" | "n = 9" by atomize_elim arith
  then show ?thesis
    by cases (simp_all add: digit_char_def is_digit_def digit_val_def)
qed

lemma str_nat_digits: "list_all is_digit (str_nat n) \<and> str_nat n \<noteq> []"
proof (induction n rule: str_nat.induct)
  case (1 n)
  show ?case
  proof (cases "n < 10")
    case True
    then show ?thesis by (subst (1 2) str_nat.simps) (simp add: digit_char_digit)
  next
    case False
    with 1 show ?thesis
      by (subst (1 2) str_nat.simps) (simp add: digit_char_digit)
  qed
qed

lemma digits_val_snoc:
  "list_all is_digit xs \<Longrightarrow> is_digit d \<Longrightarrow>
     digits_val (xs @ [d]) acc = map_option (\<lambda>a. a * 10 + digit_val d) (digits_val xs acc)"
  by (induction xs arbitrary: acc) simp_all

lemma digits_val_str_nat: "digits_val (str_nat n) 0 = Some n"
proof (induction n rule: str_nat.induct)
  case (1 n)
  show ?case
  proof (cases "n < 10")
    case True
    then show ?thesis by (subst str_nat.simps) (simp add: digit_char_digit)
  next
    case False
    then have ih: "digits_val (str_nat (n div 10)) 0 = Some (n div 10)" using 1 by simp
    have "digits_val (str_nat (n div 10) @ [digit_char (n mod 10)]) 0
            = Some (n div 10 * 10 + n mod 10)"
      by (simp add: digits_val_snoc str_nat_digits digit_char_digit ih)
    with False show ?thesis by (subst str_nat.simps) simp
  qed
qed

lemma parse_nat_str_nat: "parse_nat (str_nat n) = Some n"
proof -
  obtain c cs where s: "str_nat n = c # cs" using str_nat_digits [of n] by (cases "str_nat n") auto
  with str_nat_digits [of n] have "is_digit c" by simp
  with s digits_val_str_nat [of n] show ?thesis by (simp add: parse_nat_def)
qed

lemma digit_not_space: "is_digit c \<Longrightarrow> \<not> is_space c \<and> c \<noteq> CHR ''-'' \<and> c \<noteq> CHR ''+''"
  by (auto simp: is_digit_def is_space_def)

lemma strip_no_space:
  assumes "list_all (\<lambda>c. \<not> is_space c) s"
  shows "rev (dropWhile is_space (rev (dropWhile is_space s))) = s"
proof -
  have a: "dropWhile is_space s = s" using assms by (cases s) simp_all
  have "list_all (\<lambda>c. \<not> is_space c) (rev s)" using assms by (simp add: list_all_iff)
  then have "dropWhile is_space (rev s) = rev s" by (cases "rev s") simp_all
  with a show ?thesis by simp
qed

lemma python_int_str_int: "python_int (str_int i) = Some i"
proof -
  have ns: "list_all (\<lambda>c. \<not> is_space c) (str_nat n)" for n
    using str_nat_digits [of n] by (auto simp: list_all_iff digit_not_space)
  show ?thesis
  proof (cases "i < 0")
    case True
    have "list_all (\<lambda>c. \<not> is_space c) (str_int i)"
      using True ns by (simp add: str_int_def is_space_def)
    then have "rev (dropWhile is_space (rev (dropWhile is_space (str_int i)))) = str_int i"
      by (rule strip_no_space)
    then show ?thesis using True
      by (simp add: python_int_def str_int_def parse_nat_str_nat)
  next
    case False
    obtain c cs where s: "str_nat (nat i) = c # cs"
      using str_nat_digits [of "nat i"] by (cases "str_nat (nat i)") auto
    with str_nat_digits [of "nat i"] have c: "is_digit c" by simp
    have "list_all (\<lambda>c. \<not> is_space c) (str_int i)"
      using False ns by (simp add: str_int_def)
    then have "rev (dropWhile is_space (rev (dropWhile is_space (str_int i)))) = str_int i"
      by (rule strip_no_space)
    then show ?thesis using False s c parse_nat_str_nat [of "nat i"]
      by (simp add: python_int_def str_int_def digit_not_space)
  qed
qed

lemma row_get_pair:
  "row_get [''month'', ''commits''] [k, v] ''commits'' = Some (Some v)"
  "row_get [''month'', ''commits''] [k, v] ''month'' = Some (Some k)"
  by (simp_all add: row_get_def)

lemma load_rows_generated:
  "load_rows [''month'', ''commits''] (map (\<lambda>k. [k, str_int (f k)]) ks) acc
     = Inr (fold (\<lambda>k. AList.update k (f k)) ks acc)"
  by (induction ks arbitrary: acc) (simp_all add: row_get_pair python_int_str_int)

lemma update_fresh: "k \<notin> fst ` set al \<Longrightarrow> AList.update k v al = al @ [(k, v)]"
  by (induction al) auto

lemma fold_update_fresh:
  "distinct ks \<Longrightarrow> set ks \<inter> fst ` set acc = {} \<Longrightarrow>
     fold (\<lambda>k. AList.update k (f k)) ks acc = acc @ map (\<lambda>k. (k, f k)) ks"
proof (induction ks arbitrary: acc)
  case Nil
  then show ?case by simp
next
  case (Cons k ks)
  then have fresh: "k \<notin> fst ` set acc" by auto
  have "set ks \<inter> fst ` set (acc @ [(k, f k)]) = {}" using Cons.prems by auto
  with Cons.IH [of "acc @ [(k, f k)]"] Cons.prems(1) show ?case
    by (simp add: update_fresh [OF fresh])
qed

lemma load_save: "distinct (map fst m) \<Longrightarrow> load_existing_csv (Some (save_csv m)) = Inr (reloaded m)"
  by (simp add: load_existing_csv_def save_csv_def load_rows_generated fold_update_fresh reloaded_def)

lemma map_of_reloaded: "distinct (map fst m) \<Longrightarrow> map_of (reloaded m) = map_of m"
proof
  fix k assume d: "distinct (map fst m)"
  show "map_of (reloaded m) k = map_of m k"
  proof (cases "k \<in> fst ` set m")
    case True
    then obtain v where "map_of m k = Some v"
      by (metis domD dom_map_of_conv_image_fst)
    with True show ?thesis
      by (simp add: reloaded_def map_of_map_restrict restrict_map_def)
  next
    case False
    then have "map_of m k = None" by (simp add: map_of_eq_None_iff)
    with False show ?thesis
      by (simp add: reloaded_def map_of_map_restrict restrict_map_def)
  qed
qed

lemma keys_reloaded: "map fst (reloaded m) = sort (map fst m)"
  by (simp add: reloaded_def comp_def)

lemma save_reloaded: "distinct (map fst m) \<Longrightarrow> save_csv (reloaded m) = save_csv m"
  by (simp add: save_csv_def keys_reloaded map_of_reloaded sorted_sort_id)

lemma save_csv_rows:
  assumes "distinct (map fst m)"
  shows "set (tl (save_csv m)) = (\<lambda>(k, v). [k, str_int v]) ` set m"
proof -
  have "map_of m k = Some v \<longleftrightarrow> (k, v) \<in> set m" for k v
    using assms by simp
  then have eq: "\<And>k. k \<in> fst ` set m \<Longrightarrow> (k, the (map_of m k)) \<in> set m"
    by (metis domD dom_map_of_conv_image_fst option.sel)
  show ?thesis
  proof
    show "set (tl (save_csv m)) \<subseteq> (\<lambda>(k, v). [k, str_int v]) ` set m"
      using eq by (force simp: save_csv_def)
    show "(\<lambda>(k, v). [k, str_int v]) ` set m \<subseteq> set (tl (save_csv m))"
    proof
      fix row assume "row \<in> (\<lambda>(k, v). [k, str_int v]) ` set m"
      then obtain k v where kv: "(k, v) \<in> set m" "row = [k, str_int v]" by auto
      then have "map_of m k = Some v" using assms by simp
      with kv show "row \<in> set (tl (save_csv m))"
        by (force simp: save_csv_def)
    qed
  qed
qed

text \<open>
  C7. For every dict whose keys are well-formed months, loading the saved file
  succeeds and gives the same mapping, and saving that again gives the same rows and
  the same bytes: the header \<open>month,commits\<close>, then one row \<open>month,count\<close> per key, in
  strictly ascending order of the months.
\<close>

theorem cache_file_round_trip:
  assumes "distinct (map fst m)" and "\<forall>k \<in> set (map fst m). validate_month k"
  shows "\<exists>m'. load_existing_csv (Some (save_csv m)) = Inr m'
            \<and> map_of m' = map_of m
            \<and> save_csv m' = save_csv m
            \<and> write_rows (save_csv m') = write_rows (save_csv m)
            \<and> hd (save_csv m) = [''month'', ''commits'']
            \<and> length (save_csv m) = Suc (length m)
            \<and> sorted_wrt (<) (map hd (tl (save_csv m)))
            \<and> set (tl (save_csv m)) = (\<lambda>(k, v). [k, str_int v]) ` set m"
proof -
  note d = assms(1)
  have keys: "map hd (tl (save_csv m)) = sort (map fst m)"
    by (simp add: save_csv_def comp_def)
  have "sorted_wrt (<) (sort (map fst m))"
    using d by (simp add: strict_sorted_iff)
  then have srt: "sorted_wrt (<) (map hd (tl (save_csv m)))" by (simp only: keys)
  have len: "length (save_csv m) = Suc (length m)" by (simp add: save_csv_def)
  have hdr: "hd (save_csv m) = [''month'', ''commits'']" by (simp add: save_csv_def)
  from load_save [OF d] map_of_reloaded [OF d] save_reloaded [OF d] hdr len srt
    save_csv_rows [OF d]
  show ?thesis by (intro exI [of _ "reloaded m"]) simp
qed

theorem cache_file_round_trip_witness:
  "distinct (map fst [(''2023-02'', 5), (''2022-12'', 0 :: int)])
   \<and> validate_month ''2023-02'' \<and> validate_month ''2022-12''
   \<and> save_csv [(''2023-02'', 5), (''2022-12'', 0)]
        = [[''month'', ''commits''], [''2022-12'', ''0''], [''2023-02'', ''5'']]
   \<and> load_existing_csv (Some (save_csv [(''2023-02'', 5), (''2022-12'', 0)]))
        = Inr [(''2022-12'', 0), (''2023-02'', 5)]
   \<and> (\<exists>m'. load_existing_csv (Some (save_csv [(''2023-02'', 5), (''2022-12'', 0)])) = Inr m'
          \<and> save_csv m' = save_csv [(''2023-02'', 5), (''2022-12'', 0)])"
proof -
  let ?m = "[(''2023-02'', 5), (''2022-12'', 0 :: int)]"
  have d: "distinct (map fst ?m)" by simp
  have v1: "validate_month ''2023-02''" and v2: "validate_month ''2022-12''"
    by (simp_all add: validate_month_def is_digit_def)
  then have v: "\<forall>k \<in> set (map fst ?m). validate_month k" by simp
  have s: "save_csv ?m = [[''month'', ''commits''], [''2022-12'', ''0''], [''2023-02'', ''5'']]"
    by code_simp
  have l: "load_existing_csv (Some (save_csv ?m)) = Inr [(''2022-12'', 0), (''2023-02'', 5)]"
    by code_simp
  from cache_file_round_trip [OF d v]
  have "\<exists>m'. load_existing_csv (Some (save_csv ?m)) = Inr m' \<and> save_csv m' = save_csv ?m"
    by blast
  with d v1 v2 s l show ?thesis by blast
qed

section \<open>Properties of the outlier smoothing\<close>

lemma length_outlier_mask [simp]: "length (outlier_mask cs z) = length cs"
  by (simp add: outlier_mask_def Let_def)

lemma length_interpolate [simp]: "length (interpolate ys) = length ys"
  by (simp add: interpolate_def)

lemma interpolate_leading_nan: "interpolate (None # ys) ! 0 = None"
  by (simp add: interpolate_def prev_valid_def upt_rec [of 0])

lemma cap_outliers_first_flagged:
  assumes "df \<noteq> []" and "hd (outlier_mask (map snd df) z_thresh)"
  shows "cap_outliers df z_thresh = Inl IntCastingNaNError"
proof -
  obtain r rs where df: "df = r # rs" using assms(1) by (cases df) auto
  let ?mk = "outlier_mask (map snd df) z_thresh"
  have "length ?mk = Suc (length rs)" by (simp add: df)
  then obtain b bs where mk: "?mk = b # bs" by (cases ?mk) simp_all
  with assms(2) have b: "b" by simp
  let ?masked = "map (\<lambda>((month, c), flagged). if flagged then None else Some (rat_of_int c))
                          (zip df ?mk)"
  have "?masked = None # map (\<lambda>((month, c), flagged). if flagged then None else Some (rat_of_int c))
                          (zip rs bs)"
    using df mk b by (simp add: split_def)
  then have "interpolate ?masked ! 0 = None"
    by (simp only: interpolate_leading_nan)
  moreover have "0 < length (interpolate ?masked)" using df by simp
  ultimately have "None \<in> set (interpolate ?masked)"
    by (metis nth_mem)
  then have ex: "list_ex (\<lambda>v. v = None) (interpolate ?masked)"
    by (auto simp: list_ex_iff)
  have any: "list_ex id ?mk" using mk b by simp
  show ?thesis
    unfolding cap_outliers_def Let_def using any ex by simp
qed

lemma restrict_months_filter:
  "restrict_months s e df =
     filter (\<lambda>(month, c). (truthy s \<longrightarrow> month \<ge> the s) \<and> (truthy e \<longrightarrow> month \<le> the e)) df"
  by (auto simp: restrict_months_def Let_def split_def intro: filter_cong)

lemma restrict_months_sort_key:
  "restrict_months s e (sort_key f df) = sort_key f (restrict_months s e df)"
  by (simp add: restrict_months_filter filter_sort)

lemma restrict_months_none [simp]: "restrict_months None None df = df"
  by (simp add: restrict_months_def truthy_def)

lemma restrict_months_subset: "set (restrict_months s e df) \<subseteq> set df"
  by (auto simp: restrict_months_filter)

lemma load_commits_window:
  assumes "rows \<noteq> []" and "\<not> list_ex (\<lambda>(month, c). to_dt month = None) rows"
  shows "load_commits to_dt rows s e =
           cap_outliers (sort_key (\<lambda>(month, c). the (to_dt month))
                           (restrict_months s e rows)) 3"
  using assms by (simp add: load_commits_def restrict_months_sort_key)

lemma load_commits_of_window:
  assumes "restrict_months s e rows \<noteq> []"
    and "\<not> list_ex (\<lambda>(month, c). to_dt month = None) rows"
  shows "load_commits to_dt rows s e = load_commits to_dt (restrict_months s e rows) None None"
proof -
  have ne: "rows \<noteq> []" using assms(1) restrict_months_subset [of s e rows] by auto
  have ok: "\<not> list_ex (\<lambda>(month, c). to_dt month = None) (restrict_months s e rows)"
    using assms(2) restrict_months_subset [of s e rows] by (auto simp: list_ex_iff)
  from load_commits_window [OF ne assms(2), of s e]
    load_commits_window [OF assms(1) ok, of None None]
  show ?thesis by simp
qed

text \<open>
  C8. A flagged point at a boundary of the series should be replaced by the nearest
  unflagged value. For a flagged last point \<open>cap_outliers\<close> does so. For a flagged
  first point it does not return: the interpolation leaves the leading value
  missing, and the conversion to integers raises. The series 1000, 10, 10, 10, 10 is
  such an input.
\<close>

theorem cap_outliers_flagged_first_point_raises:
  "(df \<noteq> [] \<and> hd (outlier_mask (map snd df) z_thresh) \<longrightarrow>
      cap_outliers df z_thresh = Inl IntCastingNaNError)
   \<and> outlier_mask [1000, 10, 10, 10, 10] 3 = [True, False, False, False, False]
   \<and> cap_outliers [(''2023-01'', 1000), (''2023-02'', 10), (''2023-03'', 10),
                    (''2023-04'', 10), (''2023-05'', 10)] 3 = Inl IntCastingNaNError
   \<and> outlier_mask [10, 10, 10, 10, 1000] 3 = [False, False, False, False, True]
   \<and> cap_outliers [(''2023-01'', 10), (''2023-02'', 10), (''2023-03'', 10),
                    (''2023-04'', 10), (''2023-05'', 1000)] 3
        = Inr [(''2023-01'', 10), (''2023-02'', 10), (''2023-03'', 10),
               (''2023-04'', 10), (''2023-05'', 10)]"
proof (intro conjI impI)
  assume "df \<noteq> [] \<and> hd (outlier_mask (map snd df) z_thresh)"
  then show "cap_outliers df z_thresh = Inl IntCastingNaNError"
    using cap_outliers_first_flagged by blast
next
  show "outlier_mask [1000, 10, 10, 10, 10] 3 = [True, False, False, False, False]"
    by code_simp
  show "cap_outliers [(''2023-01'', 1000), (''2023-02'', 10), (''2023-03'', 10),
                    (''2023-04'', 10), (''2023-05'', 10)] 3 = Inl IntCastingNaNError"
    by code_simp
  show "outlier_mask [10, 10, 10, 10, 1000] 3 = [False, False, False, False, True]"
    by code_simp
  show "cap_outliers [(''2023-01'', 10), (''2023-02'', 10), (''2023-03'', 10),
                    (''2023-04'', 10), (''2023-05'', 1000)] 3
        = Inr [(''2023-01'', 10), (''2023-02'', 10), (''2023-03'', 10),
               (''2023-04'', 10), (''2023-05'', 10)]"
    by code_simp
qed

theorem cap_outliers_flagged_first_point_raises_witness:
  "[(''2024-01'', 7), (''2024-02'', 1), (''2024-03'', 1)] \<noteq> ([] :: month_totals)
   \<and> hd (outlier_mask (map snd [(''2024-01'', 7), (''2024-02'', 1), (''2024-03'', 1)]) 3)
   \<and> cap_outliers [(''2024-01'', 7), (''2024-02'', 1), (''2024-03'', 1)] 3
        = Inl IntCastingNaNError"
proof -
  let ?df = "[(''2024-01'', 7), (''2024-02'', 1), (''2024-03'', 1)] :: month_totals"
  have ne: "?df \<noteq> []" by simp
  have fl: "hd (outlier_mask (map snd ?df) 3)" by code_simp
  from cap_outliers_flagged_first_point_raises [of ?df 3] ne fl
  have "cap_outliers ?df 3 = Inl IntCastingNaNError" by blast
  with ne fl show ?thesis by blast
qed

text \<open>
  C1 as stated fails: with the chart restricted to months up to 2023-08, the spike
  of 2023-08 is the last point of the series that is smoothed and takes the value 70
  of 2023-07; smoothing the full series first would give 80, between 2023-07 and
  2023-09.
\<close>

theorem load_commits_restricts_before_smoothing:
  "load_commits to_datetime sample_cache None (Some ''2023-08'')
     = Inr [(''2023-01'', 10), (''2023-02'', 20), (''2023-03'', 30), (''2023-04'', 40),
            (''2023-05'', 50), (''2023-06'', 60), (''2023-07'', 70), (''2023-08'', 70)]
   \<and> load_commits_cap_first to_datetime sample_cache None (Some ''2023-08'')
     = Inr [(''2023-01'', 10), (''2023-02'', 20), (''2023-03'', 30), (''2023-04'', 40),
            (''2023-05'', 50), (''2023-06'', 60), (''2023-07'', 70), (''2023-08'', 80)]
   \<and> load_commits to_datetime sample_cache None (Some ''2023-08'')
       \<noteq> load_commits_cap_first to_datetime sample_cache None (Some ''2023-08'')"
proof -
  have a: "load_commits to_datetime sample_cache None (Some ''2023-08'')
     = Inr [(''2023-01'', 10), (''2023-02'', 20), (''2023-03'', 30), (''2023-04'', 40),
            (''2023-05'', 50), (''2023-06'', 60), (''2023-07'', 70), (''2023-08'', 70)]"
    by code_simp
  have b: "load_commits_cap_first to_datetime sample_cache None (Some ''2023-08'')
     = Inr [(''2023-01'', 10), (''2023-02'', 20), (''2023-03'', 30), (''2023-04'', 40),
            (''2023-05'', 50), (''2023-06'', 60), (''2023-07'', 70), (''2023-08'', 80)]"
    by code_simp
  from a b show ?thesis by simp
qed

text \<open>
  C1, as amended. For every cached series (rows that parse, with distinct dates) and
  any requested display range, \<open>load_commits\<close> applies the start-month and end-month
  restriction first and runs \<open>cap_outliers\<close> on the restricted series, not on the full
  one. Its outcome, result or error, is the outcome of \<open>cap_outliers\<close> on the sorted
  rows of the window; it is the same for two caches with the same rows in the window,
  and the same as loading the rows of the window alone. So a point outside the
  requested window never serves as a neighbour in the interpolation. What the
  smoothing does with a flagged point at the boundary of the window is not part of
  this statement.
\<close>

theorem load_commits_smooths_restricted_series:
  assumes "rows \<noteq> []" and "\<not> list_ex (\<lambda>(month, c). to_dt month = None) rows"
    and "distinct (map (\<lambda>(month, c). to_dt month) rows)"
  shows "load_commits to_dt rows s e
           = cap_outliers (restrict_months s e
                             (sort_key (\<lambda>(month, c). the (to_dt month)) rows)) 3
   \<and> load_commits to_dt rows s e
           = cap_outliers (sort_key (\<lambda>(month, c). the (to_dt month))
                             (restrict_months s e rows)) 3
   \<and> (\<forall>rows'. rows' \<noteq> [] \<and> \<not> list_ex (\<lambda>(month, c). to_dt month = None) rows'
                \<and> distinct (map (\<lambda>(month, c). to_dt month) rows')
                \<and> restrict_months s e rows' = restrict_months s e rows \<longrightarrow>
         load_commits to_dt rows' s e = load_commits to_dt rows s e)
   \<and> (restrict_months s e rows \<noteq> [] \<longrightarrow>
         load_commits to_dt rows s e
           = load_commits to_dt (restrict_months s e rows) None None)"
proof (intro conjI allI impI)
  show "load_commits to_dt rows s e
           = cap_outliers (restrict_months s e
                             (sort_key (\<lambda>(month, c). the (to_dt month)) rows)) 3"
    using assms(1,2) by (simp add: load_commits_def)
  show "load_commits to_dt rows s e
           = cap_outliers (sort_key (\<lambda>(month, c). the (to_dt month))
                             (restrict_months s e rows)) 3"
    using assms(1,2) by (rule load_commits_window)
next
  fix rows'
  assume a: "rows' \<noteq> [] \<and> \<not> list_ex (\<lambda>(month, c). to_dt month = None) rows'
                \<and> distinct (map (\<lambda>(month, c). to_dt month) rows')
                \<and> restrict_months s e rows' = restrict_months s e rows"
  then have "load_commits to_dt rows' s e
           = cap_outliers (sort_key (\<lambda>(month, c). the (to_dt month))
                             (restrict_months s e rows')) 3"
    using load_commits_window [of rows' to_dt s e] by blast
  with a load_commits_window [OF assms(1,2), of s e]
  show "load_commits to_dt rows' s e = load_commits to_dt rows s e" by simp
next
  assume "restrict_months s e rows \<noteq> []"
  then show "load_commits to_dt rows s e
           = load_commits to_dt (restrict_months s e rows) None None"
    using assms(2) by (rule load_commits_of_window)
qed

theorem load_commits_smooths_restricted_series_witness:
  "sample_cache \<noteq> []
   \<and> \<not> list_ex (\<lambda>(month, c). to_datetime month = None) sample_cache
   \<and> distinct (map (\<lambda>(month, c). to_datetime month) sample_cache)
   \<and> restrict_months None (Some ''2023-08'') (butlast sample_cache)
       = restrict_months None (Some ''2023-08'') sample_cache
   \<and> load_commits to_datetime (butlast sample_cache) None (Some ''2023-08'')
       = load_commits to_datetime sample_cache None (Some ''2023-08'')
   \<and> load_commits to_datetime sample_cache None (Some ''2023-08'')
       = load_commits to_datetime (butlast sample_cache) None None
   \<and> load_commits to_datetime sample_cache None (Some ''2023-08'')
       = Inr [(''2023-01'', 10), (''2023-02'', 20), (''2023-03'', 30), (''2023-04'', 40),
              (''2023-05'', 50), (''2023-06'', 60), (''2023-07'', 70), (''2023-08'', 70)]"
proof -
  have ne: "sample_cache \<noteq> []" by (simp add: sample_cache_def)
  have ok: "\<not> list_ex (\<lambda>(month, c). to_datetime month = None) sample_cache" by code_simp
  have di: "distinct (map (\<lambda>(month, c). to_datetime month) sample_cache)" by code_simp
  have ne': "butlast sample_cache \<noteq> []" by (simp add: sample_cache_def)
  have ok': "\<not> list_ex (\<lambda>(month, c). to_datetime month = None) (butlast sample_cache)"
    by code_simp
  have di': "distinct (map (\<lambda>(month, c). to_datetime month) (butlast sample_cache))"
    by code_simp
  have r: "restrict_months None (Some ''2023-08'') (butlast sample_cache)
       = restrict_months None (Some ''2023-08'') sample_cache" by code_simp
  have w: "restrict_months None (Some ''2023-08'') sample_cache = butlast sample_cache"
    by code_simp
  have v: "load_commits to_datetime sample_cache None (Some ''2023-08'')
       = Inr [(''2023-01'', 10), (''2023-02'', 20), (''2023-03'', 30), (''2023-04'', 40),
              (''2023-05'', 50), (''2023-06'', 60), (''2023-07'', 70), (''2023-08'', 70)]"
    by code_simp
  note inst = load_commits_smooths_restricted_series
    [OF ne ok di, of None "Some ''2023-08''"]
  from inst ne' ok' di' r
  have one: "load_commits to_datetime (butlast sample_cache) None (Some ''2023-08'')
       = load_commits to_datetime sample_cache None (Some ''2023-08'')"
    by blast
  have wne: "restrict_months None (Some ''2023-08'') sample_cache \<noteq> []"
    unfolding w by (rule ne')
  from inst have "restrict_months None (Some ''2023-08'') sample_cache \<noteq> [] \<longrightarrow>
         load_commits to_datetime sample_cache None (Some ''2023-08'')
           = load_commits to_datetime
               (restrict_months None (Some ''2023-08'') sample_cache) None None"
    by blast
  with wne have "load_commits to_datetime sample_cache None (Some ''2023-08'')
           = load_commits to_datetime
               (restrict_months None (Some ''2023-08'') sample_cache) None None"
    by blast
  then have two: "load_commits to_datetime sample_cache None (Some ''2023-08'')
       = load_commits to_datetime (butlast sample_cache) None None"
    by (simp only: w)
  from ne ok di r one two v show ?thesis by blast
qed

end
